theory Spec2Isabelle
  imports Complex_Main
begin

section \<open>Rig localization pipeline (main_rigLocalization.cpp)\<close>

subsection \<open>Threshold values and estimator kinds\<close>

text \<open>
  A C++ \<^verbatim>\<open>double\<close> as the value it denotes: a finite real, one of the two
  infinities, or a NaN. The checks of \<^verbatim>\<open>checkRobustEstimator\<close> only compare and assign,
  so no rounding is involved; the two comparisons follow IEEE 754 (every comparison with a
  NaN is false, and \<^verbatim>\<open>-0.0 == 0\<close> holds since both zeros denote the real 0).
\<close>

datatype double = Finite real | PosInf | NegInf | NaN

fun double_eq :: "double \<Rightarrow> double \<Rightarrow> bool" where
  "double_eq (Finite x) d = (case d of Finite y \<Rightarrow> x = y | _ \<Rightarrow> False)"
| "double_eq PosInf d = (d = PosInf)"
| "double_eq NegInf d = (d = NegInf)"
| "double_eq NaN d = False"

fun double_le :: "double \<Rightarrow> double \<Rightarrow> bool" where
  "double_le NaN _ = False"
| "double_le _ NaN = False"
| "double_le NegInf _ = True"
| "double_le _ PosInf = True"
| "double_le (Finite x) (Finite y) = (x \<le> y)"
| "double_le _ _ = False"

text \<open>
  The enumeration \<^verbatim>\<open>robustEstimation::EROBUST_ESTIMATOR\<close> is declared in
  \<^verbatim>\<open>estimators.hpp\<close>; the program names two of its members, and every other member is
  \<open>ROBUST_ESTIMATOR_OTHER k\<close>.
\<close>

datatype EROBUST_ESTIMATOR =
    ROBUST_ESTIMATOR_ACRANSAC
  | ROBUST_ESTIMATOR_LORANSAC
  | ROBUST_ESTIMATOR_OTHER nat

text \<open>
  The literal \<^verbatim>\<open>1e-6\<close>. The double it denotes is the one nearest to \<open>1 / 10 ^ 6\<close>, just
  below it, and no double lies strictly between the two, so on doubles the test
  \<^verbatim>\<open>value <= minThreshold\<close> is the test against the real \<open>1 / 10 ^ 6\<close>.
\<close>

definition minThreshold :: double where
  "minThreshold = Finite (1 / 10 ^ 6)"

text \<open>
  \<^verbatim>\<open>bool checkRobustEstimator(EROBUST_ESTIMATOR e, double &value)\<close>: the result and the
  value the reference holds afterwards.
\<close>

definition checkRobustEstimator :: "EROBUST_ESTIMATOR \<Rightarrow> double \<Rightarrow> bool \<times> double" where
  "checkRobustEstimator e v =
     (if e \<noteq> ROBUST_ESTIMATOR_LORANSAC \<and> e \<noteq> ROBUST_ESTIMATOR_ACRANSAC then (False, v)
      else
        let v' = (if double_eq v (Finite 0) \<and> e = ROBUST_ESTIMATOR_ACRANSAC then PosInf else v)
        in if e = ROBUST_ESTIMATOR_LORANSAC \<and> double_le v' minThreshold then (False, v')
           else (True, v'))"

subsection \<open>Camera feeds\<close>

text \<open>
  Images, intrinsics, poses and the per-camera results are opaque payloads to the program:
  it stores and forwards them. They are modelled by tokens.
\<close>

type_synonym Image = nat
type_synonym PinholeRadialK3 = nat
type_synonym Pose3 = nat

datatype LocalizationResult = LocalizationResult (getPose: Pose3)

text \<open>
  Modelled from the spec: \<^verbatim>\<open>dataio::FeedProvider\<close> (\<^verbatim>\<open>readImage\<close>,
  \<^verbatim>\<open>goToNextFrame\<close>, \<^verbatim>\<open>isInit\<close>) is declared in \<^verbatim>\<open>FeedProvider.hpp\<close>, which the
  program only includes. A feed is an ordered source of (image, intrinsics, image name,
  intrinsics-present flag) tuples; the model keeps the frames that are still to come.
  \<^verbatim>\<open>readImage\<close> yields the current frame, or no image once the feed is exhausted, and
  \<^verbatim>\<open>goToNextFrame\<close> advances.
\<close>

record Frame =
  imageGrey :: Image
  queryIntrinsics :: PinholeRadialK3
  currentImgName :: string
  hasIntrinsics :: bool

type_synonym Feed = "Frame list"

definition readImage :: "Feed \<Rightarrow> Frame option" where
  "readImage fd = (case fd of [] \<Rightarrow> None | fr # _ \<Rightarrow> Some fr)"

definition goToNextFrame :: "Feed \<Rightarrow> Feed" where
  "goToNextFrame fd = (case fd of [] \<Rightarrow> [] | _ # rest \<Rightarrow> rest)"

subsection \<open>Diagnostics and results\<close>

text \<open>
  The messages written to the error stream. The two messages of
  \<^verbatim>\<open>checkRobustEstimator\<close> share a constructor; \<open>FeedDesync i\<close> is the message that
  camera \<open>i\<close> has no image while other cameras do, \<open>MissingIntrinsics i name\<close> the
  message that camera \<open>i\<close> has no calibration for the image \<open>name\<close>, and
  \<open>AssertionFailed\<close> stands for the report of a failed \<^verbatim>\<open>assert\<close>.
\<close>

datatype error =
    EstimatorRejected
  | IntrinsicsCountMismatch
  | LocalizerInitFailed
  | FeedProviderInitFailed nat
  | FeedDesync nat
  | MissingIntrinsics nat string
  | AssertionFailed

datatype read_outcome =
    FrameSet "Image list" "PinholeRadialK3 list"
  | NoMoreImages
  | ReadFailure error

subsection \<open>The per-camera read loop\<close>

text \<open>
  The \<^verbatim>\<open>for\<close> loop over \<^verbatim>\<open>idCamera\<close> (lines 445 to 476), started at camera
  \<open>idCamera\<close> with the feeds from that camera on, and with the vectors
  \<^verbatim>\<open>vec_imageGrey\<close> and \<^verbatim>\<open>vec_queryIntrinsics\<close> filled so far. The vector
  \<^verbatim>\<open>feeders\<close> is built with \<^verbatim>\<open>numCameras\<close> elements, so the loop runs over the
  whole of it. Every feed that is read is advanced before its answer is looked at. The
  result holds the feeds as the loop leaves them.
\<close>

fun readCameras ::
  "nat \<Rightarrow> Feed list \<Rightarrow> Image list \<Rightarrow> PinholeRadialK3 list \<Rightarrow> Feed list \<times> read_outcome" where
  "readCameras idCamera [] vec_imageGrey vec_queryIntrinsics =
     ([], FrameSet vec_imageGrey vec_queryIntrinsics)"
| "readCameras idCamera (fd # fds) vec_imageGrey vec_queryIntrinsics =
     (case readImage fd of
        None \<Rightarrow>
          (goToNextFrame fd # fds,
           if idCamera > 0 then ReadFailure (FeedDesync idCamera) else NoMoreImages)
      | Some fr \<Rightarrow>
          if \<not> hasIntrinsics fr
          then (goToNextFrame fd # fds,
                ReadFailure (MissingIntrinsics idCamera (currentImgName fr)))
          else
            (case readCameras (Suc idCamera) fds
                    (vec_imageGrey @ [imageGrey fr])
                    (vec_queryIntrinsics @ [queryIntrinsics fr]) of
               (fds', r) \<Rightarrow> (goToNextFrame fd # fds', r)))"

subsection \<open>Parameters, engine, exporter, statistics\<close>

text \<open>
  The fields of \<^verbatim>\<open>localization::LocalizerParameters\<close> that \<^verbatim>\<open>main\<close> sets for both
  localizers, and \<^verbatim>\<open>_matchingError\<close>, which it sets for the vocabulary-tree localizer
  only (\<open>None\<close> for the tag localizer).
\<close>

record LocalizerParameters =
  param_featurePreset :: nat
  param_refineIntrinsics :: bool
  param_errorMax :: double
  param_resectionEstimator :: EROBUST_ESTIMATOR
  param_matchingEstimator :: EROBUST_ESTIMATOR
  param_useLocalizeRigNaive :: bool
  param_angularThreshold :: double
  param_matchingError :: "double option"

text \<open>
  One call of \<^verbatim>\<open>localizer->localizeRig\<close>: what it is given, and what it gives back.
  \<^verbatim>\<open>rigPose\<close> is passed by reference and kept from one frame to the next. The time
  measured around the call, in whole milliseconds, is not under the program's control and
  comes with the answer. \<^verbatim>\<open>vec_queryIntrinsics\<close> is passed by reference too, and
  \<^verbatim>\<open>main\<close> exports it after the call: the engine is taken to hand the vector back as
  it received it, so the keyframes carry the intrinsics as they were read and the
  assertion of line 510 on the size of the vector holds.
\<close>

record rig_query =
  q_images :: "Image list"
  q_param :: LocalizerParameters
  q_intrinsics :: "PinholeRadialK3 list"
  q_subPoses :: "Pose3 list"
  q_rigPose :: Pose3

record rig_answer =
  isLocalized :: bool
  a_rigPose :: Pose3
  localizationResults :: "LocalizationResult list"
  detect_elapsed :: int

text \<open>
  Modelled from the spec: \<^verbatim>\<open>sfm::AlembicExporter\<close> is declared in
  \<^verbatim>\<open>AlembicExporter.hpp\<close>. A track is the sequence of what it was given, in order:
  a keyframe (\<^verbatim>\<open>addCameraKeyframe\<close>) or a gap marker (\<^verbatim>\<open>jumpKeyframe\<close>).
\<close>

datatype keyframe =
    CameraKeyframe Pose3 PinholeRadialK3 string nat nat
  | JumpKeyframe

text \<open>
  The accumulator set of Boost with the features mean, min, max and sum. The samples are
  counts of milliseconds; their sum is exact in a double below \<open>2 ^ 53\<close>. With no sample
  Boost reports the largest and the lowest double as min and max and 0/0 as mean: these
  are \<open>None\<close>.
\<close>

record accumulator_set =
  acc_count :: nat
  acc_sum :: int
  acc_min :: "int option"
  acc_max :: "int option"

definition acc_empty :: accumulator_set where
  "acc_empty = \<lparr>acc_count = 0, acc_sum = 0, acc_min = None, acc_max = None\<rparr>"

definition accumulate :: "accumulator_set \<Rightarrow> int \<Rightarrow> accumulator_set" where
  "accumulate acc x =
     \<lparr>acc_count = Suc (acc_count acc),
      acc_sum = acc_sum acc + x,
      acc_min = Some (case acc_min acc of None \<Rightarrow> x | Some m \<Rightarrow> min m x),
      acc_max = Some (case acc_max acc of None \<Rightarrow> x | Some m \<Rightarrow> max m x)\<rparr>"

definition acc_mean :: "accumulator_set \<Rightarrow> real option" where
  "acc_mean acc =
     (if acc_count acc = 0 then None
      else Some (real_of_int (acc_sum acc) / real (acc_count acc)))"

subsection \<open>The state of the frame loop\<close>

text \<open>
  The variables of \<^verbatim>\<open>main\<close> that the loop changes. \<open>localizeRigCalls\<close> is a history
  variable: the calls of the engine so far, each with its answer. Nothing in the program
  reads it; the theorems use it to speak about what the engine was asked and what it
  returned. The counters are \<^verbatim>\<open>std::size_t\<close>; they count the entries of a vector held
  in memory and are modelled by \<open>nat\<close>.
\<close>

record State =
  feeders :: "Feed list"
  frameCounter :: nat
  numLocalizedFrames :: nat
  rigPose :: Pose3
  stats :: accumulator_set
  rigResultPerFrame :: "LocalizationResult list list"
  exporter :: "keyframe list"
  cameraExporters :: "keyframe list list"
  localizeRigCalls :: "(rig_query \<times> rig_answer) list"

text \<open>What the loop does not change, set up before it.\<close>

record Setup =
  param :: LocalizerParameters
  vec_subPoses :: "Pose3 list"
  subMediaFilepath :: "string list"

text \<open>
  What lies outside the program: the build option for the Alembic exporter, the
  conversion \<^verbatim>\<open>D2R\<close>, the localizer (whether it initialised, and its answer to the
  \<open>k\<close>-th call), the feed providers (whether the feed for a media path and a calibration
  file initialised, and its frames), the directory of a media path, and the rig
  calibration file.
\<close>

record World =
  HAVE_ALEMBIC :: bool
  D2R :: "double \<Rightarrow> double"
  localizerIsInit :: bool
  localizeRig :: "nat \<Rightarrow> rig_query \<Rightarrow> rig_answer"
  newFeedProvider :: "string \<Rightarrow> string \<Rightarrow> bool \<times> Feed"
  mediaDirectory :: "string \<Rightarrow> string"
  loadRigCalibration :: "string \<Rightarrow> Pose3 list"

datatype ending = Break State | Return error State | Crash

datatype step = Continue State | Stop ending

subsection \<open>One iteration of the frame loop\<close>

text \<open>
  The body of \<^verbatim>\<open>while(haveImage)\<close> (lines 436 to 535). \<^verbatim>\<open>numCameras\<close> is the size
  of \<^verbatim>\<open>feeders\<close>. A \<^verbatim>\<open>return EXIT_FAILURE\<close> inside the read loop leaves through
  \<open>Return\<close>, the \<^verbatim>\<open>break\<close> after it through \<open>Break\<close>. The assertions are taken
  as compiled in: with the exporter built in, a failed \<^verbatim>\<open>assert\<close> ends the process,
  and so does the read of \<^verbatim>\<open>vec_queryIntrinsics[0]\<close> in an empty vector (\<open>Crash\<close>).
  The vectors \<^verbatim>\<open>subMediaFilepath\<close> and \<^verbatim>\<open>cameraExporters\<close> are built with
  \<^verbatim>\<open>numCameras\<close> elements before the loop.
\<close>

definition addCameraKeyframes ::
  "keyframe list list \<Rightarrow> LocalizationResult list \<Rightarrow> PinholeRadialK3 list \<Rightarrow> string list
     \<Rightarrow> nat \<Rightarrow> keyframe list list" where
  "addCameraKeyframes exporters results intrinsics paths frame =
     map (\<lambda>(camIDX, track).
            track @ [CameraKeyframe (getPose (results ! camIDX)) (intrinsics ! camIDX)
                       (paths ! camIDX) frame frame])
         (enumerate 0 exporters)"

definition loop_body :: "World \<Rightarrow> Setup \<Rightarrow> State \<Rightarrow> step" where
  "loop_body w su st =
     (let numCameras = length (feeders st) in
      case readCameras 0 (feeders st) [] [] of
        (fds, ReadFailure e) \<Rightarrow> Stop (Return e (st\<lparr>feeders := fds\<rparr>))
      | (fds, NoMoreImages) \<Rightarrow> Stop (Break (st\<lparr>feeders := fds\<rparr>))
      | (fds, FrameSet vec_imageGrey vec_queryIntrinsics) \<Rightarrow>
          let q = \<lparr>q_images = vec_imageGrey, q_param = param su,
                   q_intrinsics = vec_queryIntrinsics, q_subPoses = vec_subPoses su,
                   q_rigPose = rigPose st\<rparr>;
              a = localizeRig w (length (localizeRigCalls st)) q;
              st1 = st\<lparr>feeders := fds,
                       rigPose := a_rigPose a,
                       stats := accumulate (stats st) (detect_elapsed a),
                       rigResultPerFrame := rigResultPerFrame st @ [localizationResults a],
                       localizeRigCalls := localizeRigCalls st @ [(q, a)]\<rparr>
          in
            if isLocalized a then
              let st2 = st1\<lparr>numLocalizedFrames := Suc (numLocalizedFrames st1)\<rparr> in
              if HAVE_ALEMBIC w then
                (case vec_queryIntrinsics of
                   [] \<Rightarrow> Stop Crash
                 | intrinsics0 # _ \<Rightarrow>
                     let st3 = st2\<lparr>exporter := exporter st2 @
                                 [CameraKeyframe (rigPose st2) intrinsics0
                                    (subMediaFilepath su ! 0) (frameCounter st2)
                                    (frameCounter st2)]\<rparr>
                     in
                       if length (cameraExporters st3) = numCameras
                          \<and> length (localizationResults a) = numCameras
                          \<and> length vec_queryIntrinsics = numCameras
                       then
                         Continue (st3\<lparr>cameraExporters :=
                                         addCameraKeyframes (cameraExporters st3)
                                           (localizationResults a) vec_queryIntrinsics
                                           (subMediaFilepath su) (frameCounter st3),
                                       frameCounter := Suc (frameCounter st3)\<rparr>)
                       else Stop Crash)
              else Continue (st2\<lparr>frameCounter := Suc (frameCounter st2)\<rparr>)
            else
              if HAVE_ALEMBIC w then
                let st2 = st1\<lparr>exporter := exporter st1 @ [JumpKeyframe]\<rparr> in
                if length (cameraExporters st2) = numCameras
                then
                  Continue (st2\<lparr>cameraExporters :=
                                  map (\<lambda>track. track @ [JumpKeyframe]) (cameraExporters st2),
                                frameCounter := Suc (frameCounter st2)\<rparr>)
                else Stop Crash
              else Continue (st1\<lparr>frameCounter := Suc (frameCounter st1)\<rparr>))"

text \<open>
  The loop. As a function of the state it need not end: started with no feed at all, the
  read loop reads nothing, \<^verbatim>\<open>haveImage\<close> stays true and the engine is called for ever;
  then the value is \<open>None\<close>. Each iteration that goes on has taken one frame from
  every feed.
\<close>

partial_function (option) main_loop :: "World \<Rightarrow> Setup \<Rightarrow> State \<Rightarrow> ending option" where
  "main_loop w su st =
     (case loop_body w su st of
        Continue st' \<Rightarrow> main_loop w su st'
      | Stop e \<Rightarrow> Some e)"

declare main_loop.simps [code]

text \<open>
  The state at the head of the loop after \<open>n\<close> iterations, or the state the loop was left
  with if it ended before; \<open>None\<close> if the process was ended.
\<close>

fun state_after :: "World \<Rightarrow> Setup \<Rightarrow> nat \<Rightarrow> State \<Rightarrow> State option" where
  "state_after w su 0 st = Some st"
| "state_after w su (Suc n) st =
     (case loop_body w su st of
        Continue st' \<Rightarrow> state_after w su n st'
      | Stop (Break st') \<Rightarrow> Some st'
      | Stop (Return e st') \<Rightarrow> Some st'
      | Stop Crash \<Rightarrow> None)"

subsection \<open>The program\<close>

text \<open>
  The values of the command line once it is parsed. \<open>useVoctreeLocalizer\<close> is what the
  describer types decide (always true in a build without the tag localizer).
\<close>

record Options =
  matchingEstimator :: EROBUST_ESTIMATOR
  matchingErrorMax :: double
  resectionEstimator :: EROBUST_ESTIMATOR
  resectionErrorMax :: double
  mediaPath :: "string list"
  cameraIntrinsics :: "string list"
  rigCalibPath :: string
  featurePreset :: nat
  refineIntrinsics :: bool
  useLocalizeRigNaive :: bool
  angularThreshold :: double
  useVoctreeLocalizer :: bool

text \<open>The loop that creates one feed provider for each camera (lines 397 to 415).\<close>

fun initFeeders :: "World \<Rightarrow> nat \<Rightarrow> (string \<times> string) list \<Rightarrow> error + Feed list" where
  "initFeeders w idCamera [] = Inr []"
| "initFeeders w idCamera ((feedPath, calibFile) # rest) =
     (case newFeedProvider w feedPath calibFile of
        (ok, fd) \<Rightarrow>
          if \<not> ok then Inl (FeedProviderInitFailed idCamera)
          else (case initFeeders w (Suc idCamera) rest of
                  Inl e \<Rightarrow> Inl e
                | Inr fds \<Rightarrow> Inr (fd # fds)))"

definition initial_state :: "Feed list \<Rightarrow> keyframe list list \<Rightarrow> State" where
  "initial_state fds tracks =
     \<lparr>feeders = fds, frameCounter = 0, numLocalizedFrames = 0, rigPose = 0,
      stats = acc_empty, rigResultPerFrame = [], exporter = [],
      cameraExporters = tracks, localizeRigCalls = []\<rparr>"

text \<open>
  \<^verbatim>\<open>main\<close> from the threshold checks (line 259) to the head of the loop. The checks
  write the thresholds back through the reference; the second is not run when the first
  fails. \<^verbatim>\<open>numCameras - 1\<close> in the assertion is computed in \<^verbatim>\<open>std::size_t\<close>.
\<close>

definition startup :: "World \<Rightarrow> Options \<Rightarrow> error + Setup \<times> State" where
  "startup w opts =
     (let (okMatching, matchingErrorMax') =
            checkRobustEstimator (matchingEstimator opts) (matchingErrorMax opts)
      in
      if \<not> okMatching then Inl EstimatorRejected
      else
       (let (okResection, resectionErrorMax') =
              checkRobustEstimator (resectionEstimator opts) (resectionErrorMax opts)
        in
        if \<not> okResection then Inl EstimatorRejected
        else if length (mediaPath opts) \<noteq> length (cameraIntrinsics opts)
        then Inl IntrinsicsCountMismatch
        else
         (let numCameras = length (mediaPath opts);
              par = \<lparr>param_featurePreset = featurePreset opts,
                     param_refineIntrinsics = refineIntrinsics opts,
                     param_errorMax = resectionErrorMax',
                     param_resectionEstimator = resectionEstimator opts,
                     param_matchingEstimator = matchingEstimator opts,
                     param_useLocalizeRigNaive = useLocalizeRigNaive opts,
                     param_angularThreshold = D2R w (angularThreshold opts),
                     param_matchingError =
                       (if useVoctreeLocalizer opts then Some matchingErrorMax' else None)\<rparr>
          in
          if \<not> localizerIsInit w then Inl LocalizerInitFailed
          else
           (case initFeeders w 0 (zip (mediaPath opts) (cameraIntrinsics opts)) of
              Inl e \<Rightarrow> Inl e
            | Inr fds \<Rightarrow>
               (let subPoses = (if numCameras > 1
                                then loadRigCalibration w (rigCalibPath opts) else [])
                in
                if length subPoses \<noteq> (numCameras + 2 ^ 64 - 1) mod 2 ^ 64
                then Inl AssertionFailed
                else Inr (\<lparr>param = par, vec_subPoses = subPoses,
                            subMediaFilepath = map (mediaDirectory w) (mediaPath opts)\<rparr>,
                          initial_state fds
                            (if HAVE_ALEMBIC w then replicate numCameras [] else [])))))))"

text \<open>
  What the summary prints after the loop: the two counters, the sum divided by 1000, the
  mean, the max and the min.
\<close>

record Report =
  localizedImages :: nat
  totalImages :: nat
  overallSeconds :: real
  meanTime :: "real option"
  maxTime :: "int option"
  minTime :: "int option"

definition report :: "State \<Rightarrow> Report" where
  "report st =
     \<lparr>localizedImages = numLocalizedFrames st,
      totalImages = frameCounter st,
      overallSeconds = real_of_int (acc_sum (stats st)) / 1000,
      meanTime = acc_mean (stats st),
      maxTime = acc_max (stats st),
      minTime = acc_min (stats st)\<rparr>"

datatype exit_status = EXIT_SUCCESS | EXIT_FAILURE | ABORTED

text \<open>
  How a run ends: the exit status, the message on the error stream if there is one, the
  summary if it was printed, and the state of the loop variables at the end.
\<close>

record Run =
  status :: exit_status
  diagnostic :: "error option"
  summary :: "Report option"
  final :: "State option"

definition finish :: "ending \<Rightarrow> Run" where
  "finish e =
     (case e of
        Break st \<Rightarrow>
          \<lparr>status = EXIT_SUCCESS, diagnostic = None, summary = Some (report st),
           final = Some st\<rparr>
      | Return err st \<Rightarrow>
          \<lparr>status = EXIT_FAILURE, diagnostic = Some err, summary = None, final = Some st\<rparr>
      | Crash \<Rightarrow>
          \<lparr>status = ABORTED, diagnostic = Some AssertionFailed, summary = None,
           final = None\<rparr>)"

definition main :: "World \<Rightarrow> Options \<Rightarrow> Run option" where
  "main w opts =
     (case startup w opts of
        Inl e \<Rightarrow>
          Some \<lparr>status = (if e = AssertionFailed then ABORTED else EXIT_FAILURE),
                diagnostic = Some e, summary = None, final = None\<rparr>
      | Inr (su, st0) \<Rightarrow> map_option finish (main_loop w su st0))"

subsection \<open>Notions used in the statements\<close>

text \<open>A feed is ready when its current frame exists and comes with intrinsics.\<close>

definition ready :: "Feed \<Rightarrow> bool" where
  "ready fd = (case fd of [] \<Rightarrow> False | fr # _ \<Rightarrow> hasIntrinsics fr)"

text \<open>
  What the engine is asked in a state whose feeds are all ready, and what it answers: the
  call is the next one after those of the history.
\<close>

definition the_query :: "Setup \<Rightarrow> State \<Rightarrow> rig_query" where
  "the_query su st =
     \<lparr>q_images = map (\<lambda>fd. imageGrey (hd fd)) (feeders st), q_param = param su,
      q_intrinsics = map (\<lambda>fd. queryIntrinsics (hd fd)) (feeders st),
      q_subPoses = vec_subPoses su, q_rigPose = rigPose st\<rparr>"

definition the_answer :: "World \<Rightarrow> Setup \<Rightarrow> State \<Rightarrow> rig_answer" where
  "the_answer w su st = localizeRig w (length (localizeRigCalls st)) (the_query su st)"

text \<open>What the rig track and the track of camera \<open>camIDX\<close> are given for that frame.\<close>

definition the_keyframe :: "World \<Rightarrow> Setup \<Rightarrow> State \<Rightarrow> keyframe" where
  "the_keyframe w su st =
     (if isLocalized (the_answer w su st)
      then CameraKeyframe (a_rigPose (the_answer w su st)) (hd (q_intrinsics (the_query su st)))
             (subMediaFilepath su ! 0) (frameCounter st) (frameCounter st)
      else JumpKeyframe)"

definition the_camera_keyframe :: "World \<Rightarrow> Setup \<Rightarrow> State \<Rightarrow> nat \<Rightarrow> keyframe" where
  "the_camera_keyframe w su st camIDX =
     (if isLocalized (the_answer w su st)
      then CameraKeyframe (getPose (localizationResults (the_answer w su st) ! camIDX))
             (q_intrinsics (the_query su st) ! camIDX)
             (subMediaFilepath su ! camIDX) (frameCounter st) (frameCounter st)
      else JumpKeyframe)"

fun is_gap :: "keyframe \<Rightarrow> bool" where
  "is_gap JumpKeyframe = True"
| "is_gap (CameraKeyframe pose intr path f t) = False"

text \<open>
  The state in the middle of an iteration that attempts a frame: the answer of the engine
  is recorded (lines 489 to 500) and, if the frame is localized, the counter of localized
  frames is incremented (line 504); the exporter is not yet called and the frame counter
  not yet incremented (line 534). \<open>None\<close> when the iteration leaves the loop in the
  read loop.
\<close>

definition inside_iteration :: "World \<Rightarrow> Setup \<Rightarrow> State \<Rightarrow> State option" where
  "inside_iteration w su st =
     (case readCameras 0 (feeders st) [] [] of
        (fds, ReadFailure e) \<Rightarrow> None
      | (fds, NoMoreImages) \<Rightarrow> None
      | (fds, FrameSet vec_imageGrey vec_queryIntrinsics) \<Rightarrow>
          let q = \<lparr>q_images = vec_imageGrey, q_param = param su,
                   q_intrinsics = vec_queryIntrinsics, q_subPoses = vec_subPoses su,
                   q_rigPose = rigPose st\<rparr>;
              a = localizeRig w (length (localizeRigCalls st)) q;
              st1 = st\<lparr>feeders := fds,
                       rigPose := a_rigPose a,
                       stats := accumulate (stats st) (detect_elapsed a),
                       rigResultPerFrame := rigResultPerFrame st @ [localizationResults a],
                       localizeRigCalls := localizeRigCalls st @ [(q, a)]\<rparr>
          in
            if isLocalized a
            then Some (st1\<lparr>numLocalizedFrames := Suc (numLocalizedFrames st1)\<rparr>)
            else Some st1)"

text \<open>The state a loop was left with, if the process was not ended.\<close>

fun ending_state :: "ending \<Rightarrow> State option" where
  "ending_state (Break s) = Some s"
| "ending_state (Return e s) = Some s"
| "ending_state Crash = None"

text \<open>
  Read off the history: the durations measured for the frames attempted so far, which of
  these frames the engine failed to localize, and the accumulator fed with a list of
  samples.
\<close>

definition durations :: "State \<Rightarrow> int list" where
  "durations st = map (\<lambda>c. detect_elapsed (snd c)) (localizeRigCalls st)"

definition failures :: "State \<Rightarrow> bool list" where
  "failures st = map (\<lambda>c. \<not> isLocalized (snd c)) (localizeRigCalls st)"

definition acc_of :: "int list \<Rightarrow> accumulator_set" where
  "acc_of ds = foldl accumulate acc_empty ds"

text \<open>The invariants of the loop, as the lemmas carry them.\<close>

definition history_inv :: "World \<Rightarrow> Setup \<Rightarrow> State \<Rightarrow> bool" where
  "history_inv w su st \<longleftrightarrow>
     frameCounter st = length (localizeRigCalls st)
   \<and> rigResultPerFrame st = map (\<lambda>c. localizationResults (snd c)) (localizeRigCalls st)
   \<and> numLocalizedFrames st = length (filter (\<lambda>c. isLocalized (snd c)) (localizeRigCalls st))
   \<and> stats st = acc_of (durations st)
   \<and> (\<forall>c \<in> set (localizeRigCalls st). q_param (fst c) = param su)
   \<and> (\<forall>i < length (localizeRigCalls st).
        snd (localizeRigCalls st ! i) = localizeRig w i (fst (localizeRigCalls st ! i)))"

definition export_inv :: "World \<Rightarrow> State \<Rightarrow> bool" where
  "export_inv w st \<longleftrightarrow>
     (HAVE_ALEMBIC w \<longrightarrow>
        length (cameraExporters st) = length (feeders st)
      \<and> map is_gap (exporter st) = failures st
      \<and> (\<forall>track \<in> set (cameraExporters st). map is_gap track = failures st))"

subsection \<open>A rig of two cameras\<close>

text \<open>
  A concrete setting for the examples: two cameras with given feeds, and an engine whose
  first three calls take 10, 20 and 30 ms and localize, fail and localize; it returns one
  result for each image.
\<close>

definition example_frame :: "nat \<Rightarrow> bool \<Rightarrow> Frame" where
  "example_frame n b =
     \<lparr>imageGrey = n, queryIntrinsics = n, currentImgName = ''img'', hasIntrinsics = b\<rparr>"

definition example_localizeRig :: "nat \<Rightarrow> rig_query \<Rightarrow> rig_answer" where
  "example_localizeRig k q =
     \<lparr>isLocalized = (k \<noteq> 1), a_rigPose = k,
      localizationResults = map LocalizationResult (q_images q),
      detect_elapsed = 10 * (int k + 1)\<rparr>"

definition example_world :: "Feed \<Rightarrow> Feed \<Rightarrow> World" where
  "example_world feed0 feed1 =
     \<lparr>HAVE_ALEMBIC = True, D2R = (\<lambda>d. d), localizerIsInit = True,
      localizeRig = example_localizeRig,
      newFeedProvider = (\<lambda>feedPath calibFile.
         (True, if feedPath = ''cam0'' then feed0 else feed1)),
      mediaDirectory = (\<lambda>feedPath. feedPath),
      loadRigCalibration = (\<lambda>path. [7])\<rparr>"

definition example_options :: Options where
  "example_options =
     \<lparr>matchingEstimator = ROBUST_ESTIMATOR_ACRANSAC, matchingErrorMax = Finite 4,
      resectionEstimator = ROBUST_ESTIMATOR_ACRANSAC, resectionErrorMax = Finite 4,
      mediaPath = [''cam0'', ''cam1''], cameraIntrinsics = [''calib0'', ''calib1''],
      rigCalibPath = ''rig'', featurePreset = 2, refineIntrinsics = False,
      useLocalizeRigNaive = False, angularThreshold = Finite (1 / 10),
      useVoctreeLocalizer = True\<rparr>"

text \<open>What the start-up builds from these options.\<close>

definition example_setup :: Setup where
  "example_setup =
     \<lparr>param =
        \<lparr>param_featurePreset = 2, param_refineIntrinsics = False,
         param_errorMax = Finite 4,
         param_resectionEstimator = ROBUST_ESTIMATOR_ACRANSAC,
         param_matchingEstimator = ROBUST_ESTIMATOR_ACRANSAC,
         param_useLocalizeRigNaive = False, param_angularThreshold = Finite (1 / 10),
         param_matchingError = Some (Finite 4)\<rparr>,
      vec_subPoses = [7], subMediaFilepath = [''cam0'', ''cam1'']\<rparr>"

text \<open>The parameters a configuration leads to, if the start-up accepts it.\<close>

definition accepted_param :: "World \<Rightarrow> Options \<Rightarrow> LocalizerParameters option" where
  "accepted_param w opts =
     (case startup w opts of Inl e \<Rightarrow> None | Inr (su, st0) \<Rightarrow> Some (param su))"

text \<open>
  How an accepted threshold stands in the parameters, for the estimator it was checked
  with: with ACRANSAC it is the given value, or +infinity if that was 0; with LORANSAC it
  is the given value, which is not at most \<^verbatim>\<open>1e-6\<close>, hence not negative unless it is a
  NaN.
\<close>

definition stored_threshold :: "EROBUST_ESTIMATOR \<Rightarrow> double \<Rightarrow> double \<Rightarrow> bool" where
  "stored_threshold e given stored \<longleftrightarrow>
     (e = ROBUST_ESTIMATOR_ACRANSAC
        \<and> stored = (if double_eq given (Finite 0) then PosInf else given))
   \<or> (e = ROBUST_ESTIMATOR_LORANSAC \<and> stored = given
        \<and> \<not> double_le stored (Finite (1 / 10 ^ 6))
        \<and> (stored = NaN \<or> double_le (Finite 0) stored))"

section \<open>Auxiliary lemmas\<close>

subsection \<open>The read loop\<close>

lemma ready_Cons [simp]: "ready (fr # rest) = hasIntrinsics fr"
  by (simp add: ready_def)

lemma ready_Nil [simp]: "\<not> ready []"
  by (simp add: ready_def)

lemma readCameras_all_ready:
  "\<forall>fd \<in> set fds. ready fd \<Longrightarrow>
   readCameras i fds imgs intrs =
     (map tl fds, FrameSet (imgs @ map (\<lambda>fd. imageGrey (hd fd)) fds)
                            (intrs @ map (\<lambda>fd. queryIntrinsics (hd fd)) fds))"
proof (induction fds arbitrary: i imgs intrs)
  case Nil
  show ?case by simp
next
  case (Cons fd fds)
  from Cons.prems obtain fr rest where fd: "fd = fr # rest" and intr: "hasIntrinsics fr"
    by (cases fd) auto
  from Cons.prems have "\<forall>fd \<in> set fds. ready fd" by simp
  from Cons.IH [OF this] show ?case
    by (simp add: fd intr readImage_def goToNextFrame_def)
qed

lemma readCameras_length:
  "readCameras i fds imgs intrs = (fds', r) \<Longrightarrow> length fds' = length fds"
proof (induction fds arbitrary: i imgs intrs fds' r)
  case Nil
  then show ?case by simp
next
  case (Cons fd fds)
  then show ?case
    by (auto simp: readImage_def split: list.splits if_splits prod.splits)
qed

lemma readCameras_FrameSet:
  "readCameras i fds imgs intrs = (fds', FrameSet a b) \<Longrightarrow> \<forall>fd \<in> set fds. ready fd"
proof (induction fds arbitrary: i imgs intrs fds' a b)
  case Nil
  then show ?case by simp
next
  case (Cons fd fds)
  then show ?case
    by (auto simp: readImage_def split: list.splits if_splits prod.splits)
qed

lemma readCameras_NoMoreImages:
  "readCameras i fds imgs intrs = (fds', NoMoreImages) \<Longrightarrow> i = 0 \<and> (\<exists>rest. fds = [] # rest) \<and> fds' = fds"
proof (induction fds arbitrary: i imgs intrs fds')
  case Nil
  then show ?case by simp
next
  case (Cons fd fds)
  then show ?case
    by (auto simp: readImage_def goToNextFrame_def split: list.splits if_splits prod.splits)
qed

text \<open>The read loop stops at the first feed that is not ready.\<close>

lemma readCameras_first_fault:
  "i < length fds \<Longrightarrow> \<forall>j<i. ready (fds ! j) \<Longrightarrow> \<not> ready (fds ! i) \<Longrightarrow>
   snd (readCameras k fds imgs intrs) =
     (case fds ! i of
        [] \<Rightarrow> if k + i > 0 then ReadFailure (FeedDesync (k + i)) else NoMoreImages
      | fr # _ \<Rightarrow> ReadFailure (MissingIntrinsics (k + i) (currentImgName fr)))"
proof (induction fds arbitrary: i k imgs intrs)
  case Nil
  then show ?case by simp
next
  case (Cons fd fds)
  show ?case
  proof (cases i)
    case 0
    with Cons.prems show ?thesis
      by (cases fd) (simp_all add: readImage_def)
  next
    case (Suc i')
    from Cons.prems Suc have r0: "ready fd" by auto
    then obtain fr rest where fd: "fd = fr # rest" and intr: "hasIntrinsics fr"
      by (cases fd) auto
    from Cons.prems Suc have a: "i' < length fds" and c: "\<not> ready (fds ! i')" by simp_all
    from Cons.prems Suc have b: "\<forall>j<i'. ready (fds ! j)" by auto
    from Cons.IH [OF a b c, of "Suc k" "imgs @ [imageGrey fr]" "intrs @ [queryIntrinsics fr]"]
    show ?thesis
      unfolding Suc by (auto simp: fd intr readImage_def split: prod.splits list.splits)
  qed
qed

subsection \<open>One iteration\<close>

lemma loop_body_Break:
  "loop_body w su st = Stop (Break st') \<Longrightarrow> st' = st \<and> (\<exists>rest. feeders st = [] # rest)"
  by (auto simp: loop_body_def Let_def dest!: readCameras_NoMoreImages
      split: prod.splits read_outcome.splits if_splits list.splits)

lemma loop_body_Return:
  "loop_body w su st = Stop (Return e st') \<Longrightarrow>
   st' = st\<lparr>feeders := feeders st'\<rparr> \<and>
   readCameras 0 (feeders st) [] [] = (feeders st', ReadFailure e)"
  by (auto simp: loop_body_def Let_def
      split: prod.splits read_outcome.splits if_splits list.splits)

lemma loop_body_Continue:
  assumes "loop_body w su st = Continue st'"
  shows "(\<forall>fd \<in> set (feeders st). ready fd)
    \<and> feeders st' = map tl (feeders st)
    \<and> frameCounter st' = Suc (frameCounter st)
    \<and> numLocalizedFrames st' =
        (if isLocalized (the_answer w su st) then Suc (numLocalizedFrames st)
         else numLocalizedFrames st)
    \<and> rigPose st' = a_rigPose (the_answer w su st)
    \<and> stats st' = accumulate (stats st) (detect_elapsed (the_answer w su st))
    \<and> rigResultPerFrame st' =
        rigResultPerFrame st @ [localizationResults (the_answer w su st)]
    \<and> localizeRigCalls st' =
        localizeRigCalls st @ [(the_query su st, the_answer w su st)]"
proof -
  obtain fds r where rd: "readCameras 0 (feeders st) [] [] = (fds, r)"
    by (cases "readCameras 0 (feeders st) [] []") auto
  with assms obtain a b where r: "r = FrameSet a b"
    by (cases r) (auto simp: loop_body_def Let_def)
  from rd r have rdy: "\<forall>fd \<in> set (feeders st). ready fd"
    by (auto dest: readCameras_FrameSet)
  from readCameras_all_ready [OF rdy, of 0 "[]" "[]"] rd r
  have eqs: "fds = map tl (feeders st)" "a = map (\<lambda>fd. imageGrey (hd fd)) (feeders st)"
    "b = map (\<lambda>fd. queryIntrinsics (hd fd)) (feeders st)"
    by simp_all
  from assms rd r show ?thesis
    unfolding eqs
    by (auto simp: loop_body_def Let_def the_answer_def the_query_def rdy
      split: if_splits list.splits)
qed

lemma addCameraKeyframes_length [simp]:
  "length (addCameraKeyframes ex rs ins ps f) = length ex"
  by (simp add: addCameraKeyframes_def)

lemma addCameraKeyframes_nth:
  "i < length ex \<Longrightarrow>
   addCameraKeyframes ex rs ins ps f ! i =
     ex ! i @ [CameraKeyframe (getPose (rs ! i)) (ins ! i) (ps ! i) f f]"
  by (simp add: addCameraKeyframes_def nth_enumerate_eq)

lemma loop_body_Continue_export:
  assumes "loop_body w su st = Continue st'" and "HAVE_ALEMBIC w"
  shows "exporter st' = exporter st @ [the_keyframe w su st]
    \<and> length (cameraExporters st') = length (cameraExporters st)
    \<and> length (cameraExporters st) = length (feeders st)
    \<and> (\<forall>i < length (cameraExporters st).
          cameraExporters st' ! i = cameraExporters st ! i @ [the_camera_keyframe w su st i])"
proof -
  obtain fds r where rd: "readCameras 0 (feeders st) [] [] = (fds, r)"
    by (cases "readCameras 0 (feeders st) [] []") auto
  with assms obtain a b where r: "r = FrameSet a b"
    by (cases r) (auto simp: loop_body_def Let_def)
  from rd r have rdy: "\<forall>fd \<in> set (feeders st). ready fd"
    by (auto dest: readCameras_FrameSet)
  from readCameras_all_ready [OF rdy, of 0 "[]" "[]"] rd r
  have eqs: "fds = map tl (feeders st)" "a = map (\<lambda>fd. imageGrey (hd fd)) (feeders st)"
    "b = map (\<lambda>fd. queryIntrinsics (hd fd)) (feeders st)"
    by simp_all
  from assms rd r show ?thesis
    unfolding eqs
    by (auto simp: loop_body_def Let_def the_answer_def the_query_def the_keyframe_def
        the_camera_keyframe_def addCameraKeyframes_nth hd_map
      split: if_splits list.splits)
qed

lemma loop_body_ready:
  assumes rdy: "\<forall>fd \<in> set (feeders st). ready fd"
    and ne: "feeders st \<noteq> []"
    and tracks: "HAVE_ALEMBIC w \<longrightarrow> length (cameraExporters st) = length (feeders st)"
    and results: "HAVE_ALEMBIC w \<longrightarrow> isLocalized (the_answer w su st) \<longrightarrow>
       length (localizationResults (the_answer w su st)) = length (feeders st)"
  shows "\<exists>st'. loop_body w su st = Continue st'"
proof -
  from ne obtain fd rest where f: "feeders st = fd # rest"
    by (cases "feeders st") auto
  show ?thesis
    using tracks results
    unfolding loop_body_def readCameras_all_ready [OF rdy, of 0 "[]" "[]"]
    by (auto simp: Let_def the_answer_def the_query_def f)
qed

text \<open>
  An iteration that goes on passes through the state in its middle; what is left to do
  there is to give the tracks their entries and to increment the frame counter.
\<close>

lemma inside_iteration_Continue:
  assumes "loop_body w su st = Continue st'"
  shows "\<exists>mid. inside_iteration w su st = Some mid
           \<and> st' = mid\<lparr>exporter := exporter st', cameraExporters := cameraExporters st',
                       frameCounter := Suc (frameCounter mid)\<rparr>"
proof -
  obtain fds r where rd: "readCameras 0 (feeders st) [] [] = (fds, r)"
    by (cases "readCameras 0 (feeders st) [] []") auto
  with assms obtain a b where r: "r = FrameSet a b"
    by (cases r) (auto simp: loop_body_def Let_def)
  from assms rd r show ?thesis
    by (auto simp: loop_body_def inside_iteration_def Let_def split: if_splits list.splits)
qed

subsection \<open>The loop and the states it visits\<close>

lemma main_loop_Continue:
  "loop_body w su st = Continue st' \<Longrightarrow> main_loop w su st = main_loop w su st'"
  by (subst main_loop.simps) simp

lemma main_loop_Stop:
  "loop_body w su st = Stop e \<Longrightarrow> main_loop w su st = Some e"
  by (subst main_loop.simps) simp

lemma loop_body_exhausted:
  "feeders st = [] # rest \<Longrightarrow> loop_body w su st = Stop (Break st)"
  by (simp add: loop_body_def readImage_def goToNextFrame_def)

text \<open>
  What holds at the start and is kept by an iteration holds in every state that
  \<open>state_after\<close> yields; a \<^verbatim>\<open>break\<close> leaves the state as it is.
\<close>

lemma state_after_induct:
  assumes "state_after w su n st0 = Some st" and "P st0"
    and "\<And>s s'. P s \<Longrightarrow> loop_body w su s = Continue s' \<Longrightarrow> P s'"
    and "\<And>s e s'. P s \<Longrightarrow> loop_body w su s = Stop (Return e s') \<Longrightarrow> P s'"
  shows "P st"
  using assms(1,2)
proof (induction n arbitrary: st0)
  case 0
  then show ?case by simp
next
  case (Suc n)
  show ?case
  proof (cases "loop_body w su st0")
    case (Continue s')
    with Suc.prems have "state_after w su n s' = Some st" by simp
    moreover from assms(3) [OF Suc.prems(2) Continue] have "P s'" .
    ultimately show ?thesis by (rule Suc.IH)
  next
    case (Stop e)
    show ?thesis
    proof (cases e)
      case (Break s')
      with Stop Suc.prems have "s' = st" by simp
      moreover from Stop Break have "s' = st0" by (auto dest: loop_body_Break)
      ultimately show ?thesis using Suc.prems(2) by simp
    next
      case (Return err s')
      with Stop Suc.prems have "s' = st" by simp
      with assms(4) [OF Suc.prems(2)] Stop Return show ?thesis by simp
    next
      case Crash
      with Stop Suc.prems show ?thesis by simp
    qed
  qed
qed

text \<open>The state the loop ends with is one of these states.\<close>

lemma main_loop_state_after:
  assumes run: "main_loop w0 su0 st0 = Some e0"
  shows "\<forall>s. ending_state e0 = Some s \<longrightarrow> (\<exists>n. state_after w0 su0 n st0 = Some s)"
proof (rule main_loop.raw_induct
    [where P = "\<lambda>w su st e. \<forall>s. ending_state e = Some s
                  \<longrightarrow> (\<exists>n. state_after w su n st = Some s)", OF _ run])
  fix loop w su st e
  assume IH: "\<And>w' su' st' e'. loop w' su' st' = Some e' \<Longrightarrow>
      \<forall>s. ending_state e' = Some s \<longrightarrow> (\<exists>n. state_after w' su' n st' = Some s)"
    and eq: "(case loop_body w su st of Continue st' \<Rightarrow> loop w su st' | Stop e \<Rightarrow> Some e)
             = Some e"
  show "\<forall>s. ending_state e = Some s \<longrightarrow> (\<exists>n. state_after w su n st = Some s)"
  proof (cases "loop_body w su st")
    case (Continue st')
    with eq have a: "loop w su st' = Some e" by simp
    have "\<And>n. state_after w su (Suc n) st = state_after w su n st'"
      using Continue by simp
    with IH [OF a] show ?thesis by metis
  next
    case (Stop e')
    with eq have "e' = e" by simp
    with Stop have "\<And>s. ending_state e = Some s \<Longrightarrow> state_after w su (Suc 0) st = Some s"
      by (cases e) simp_all
    then show ?thesis by blast
  qed
qed

subsection \<open>The accumulator\<close>

lemma acc_of_Nil [simp]: "acc_of [] = acc_empty"
  by (simp add: acc_of_def)

lemma acc_of_snoc [simp]: "acc_of (ds @ [d]) = accumulate (acc_of ds) d"
  by (simp add: acc_of_def)

lemma acc_of_count: "acc_count (acc_of ds) = length ds"
  by (induction ds rule: rev_induct) (simp_all add: acc_empty_def accumulate_def)

lemma acc_of_sum: "acc_sum (acc_of ds) = sum_list ds"
  by (induction ds rule: rev_induct) (simp_all add: acc_empty_def accumulate_def)

lemma acc_of_min: "acc_min (acc_of ds) = (if ds = [] then None else Some (Min (set ds)))"
proof (induction ds rule: rev_induct)
  case Nil
  show ?case by (simp add: acc_empty_def)
next
  case (snoc d ds)
  show ?case
  proof (cases "ds = []")
    case True
    then show ?thesis by (simp add: acc_of_def accumulate_def acc_empty_def)
  next
    case False
    with snoc show ?thesis
      by (simp add: accumulate_def min.commute)
  qed
qed

lemma acc_of_max: "acc_max (acc_of ds) = (if ds = [] then None else Some (Max (set ds)))"
proof (induction ds rule: rev_induct)
  case Nil
  show ?case by (simp add: acc_empty_def)
next
  case (snoc d ds)
  show ?case
  proof (cases "ds = []")
    case True
    then show ?thesis by (simp add: acc_of_def accumulate_def acc_empty_def)
  next
    case False
    with snoc show ?thesis
      by (simp add: accumulate_def max.commute)
  qed
qed

subsection \<open>Invariants\<close>

lemma history_inv_initial: "history_inv w su (initial_state fds tracks)"
  by (simp add: history_inv_def initial_state_def durations_def)

lemma history_inv_Continue:
  assumes "history_inv w su s" and "loop_body w su s = Continue s'"
  shows "history_inv w su s'"
proof -
  note c = loop_body_Continue [OF assms(2)]
  from assms(1) show ?thesis
    unfolding history_inv_def durations_def
    by (auto simp: c nth_append the_answer_def the_query_def less_Suc_eq)
qed

lemma history_inv_Return:
  assumes "history_inv w su s" and "loop_body w su s = Stop (Return e s')"
  shows "history_inv w su s'"
proof -
  from loop_body_Return [OF assms(2)] have "s' = s\<lparr>feeders := feeders s'\<rparr>" by simp
  then obtain fds where "s' = s\<lparr>feeders := fds\<rparr>" ..
  with assms(1) show ?thesis
    by (simp add: history_inv_def durations_def)
qed

lemma history_inv_state_after:
  "state_after w su n (initial_state fds tracks) = Some st \<Longrightarrow> history_inv w su st"
  by (erule state_after_induct)
     (auto intro: history_inv_initial history_inv_Continue history_inv_Return)

lemma export_inv_initial:
  "export_inv w (initial_state fds (if HAVE_ALEMBIC w then replicate (length fds) [] else []))"
  by (simp add: export_inv_def initial_state_def failures_def)

lemma export_inv_Continue:
  assumes "export_inv w s" and "loop_body w su s = Continue s'"
  shows "export_inv w s'"
proof (cases "HAVE_ALEMBIC w")
  case False
  then show ?thesis by (simp add: export_inv_def)
next
  case True
  note c = loop_body_Continue [OF assms(2)]
  note x = loop_body_Continue_export [OF assms(2) True]
  from assms(1) True have inv: "length (cameraExporters s) = length (feeders s)"
    "map is_gap (exporter s) = failures s"
    "\<forall>track \<in> set (cameraExporters s). map is_gap track = failures s"
    by (simp_all add: export_inv_def)
  have f: "failures s' = failures s @ [\<not> isLocalized (the_answer w su s)]"
    by (simp add: failures_def c)
  have 1: "length (cameraExporters s') = length (feeders s')"
    using x c inv by simp
  have 2: "map is_gap (exporter s') = failures s'"
    using x inv by (simp add: f the_keyframe_def)
  have 3: "map is_gap track = failures s'" if "track \<in> set (cameraExporters s')" for track
  proof -
    from that obtain i where i: "i < length (cameraExporters s')" "track = cameraExporters s' ! i"
      by (auto simp: in_set_conv_nth)
    with x have "track = cameraExporters s ! i @ [the_camera_keyframe w su s i]"
      and "cameraExporters s ! i \<in> set (cameraExporters s)"
      by simp_all
    with inv(3) show ?thesis by (simp add: f the_camera_keyframe_def)
  qed
  from 1 2 3 show ?thesis by (simp add: export_inv_def)
qed

lemma export_inv_Return:
  assumes "export_inv w s" and "loop_body w su s = Stop (Return e s')"
  shows "export_inv w s'"
proof -
  from loop_body_Return [OF assms(2)]
  have a: "s' = s\<lparr>feeders := feeders s'\<rparr>" and "length (feeders s') = length (feeders s)"
    by (auto dest: readCameras_length)
  then obtain fds where "s' = s\<lparr>feeders := fds\<rparr>" "length fds = length (feeders s)"
    by metis
  with assms(1) show ?thesis
    by (simp add: export_inv_def failures_def)
qed

lemma export_inv_state_after:
  assumes "state_after w su n
     (initial_state fds (if HAVE_ALEMBIC w then replicate (length fds) [] else [])) = Some st"
  shows "export_inv w st"
  by (rule state_after_induct [where P = "export_inv w", OF assms export_inv_initial])
     (blast intro: export_inv_Continue export_inv_Return)+

subsection \<open>The start-up and the whole program\<close>

lemma initFeeders_length:
  "initFeeders w i zs = Inr fds \<Longrightarrow> length fds = length zs"
  by (induction zs arbitrary: i fds) (auto split: prod.splits if_splits sum.splits)

lemma startup_Inr:
  assumes "startup w opts = Inr (su, st0)"
  shows "fst (checkRobustEstimator (matchingEstimator opts) (matchingErrorMax opts))"
    and "fst (checkRobustEstimator (resectionEstimator opts) (resectionErrorMax opts))"
    and "param_errorMax (param su) =
           snd (checkRobustEstimator (resectionEstimator opts) (resectionErrorMax opts))"
    and "param_matchingError (param su) =
           (if useVoctreeLocalizer opts
            then Some (snd (checkRobustEstimator (matchingEstimator opts) (matchingErrorMax opts)))
            else None)"
    and "param_resectionEstimator (param su) = resectionEstimator opts"
    and "param_matchingEstimator (param su) = matchingEstimator opts"
    and "\<exists>fds. st0 = initial_state fds
                      (if HAVE_ALEMBIC w then replicate (length fds) [] else [])
            \<and> length fds = length (mediaPath opts)"
proof -
  obtain okM mE where m: "checkRobustEstimator (matchingEstimator opts) (matchingErrorMax opts) = (okM, mE)"
    by (cases "checkRobustEstimator (matchingEstimator opts) (matchingErrorMax opts)") auto
  obtain okR rE where r: "checkRobustEstimator (resectionEstimator opts) (resectionErrorMax opts) = (okR, rE)"
    by (cases "checkRobustEstimator (resectionEstimator opts) (resectionErrorMax opts)") auto
  from assms have ok: "okM" "okR" and len: "length (mediaPath opts) = length (cameraIntrinsics opts)"
    by (auto simp: startup_def Let_def m r split: if_splits)
  from assms ok len obtain fds where
    fds: "initFeeders w 0 (zip (mediaPath opts) (cameraIntrinsics opts)) = Inr fds"
    by (auto simp: startup_def Let_def m r split: if_splits sum.splits)
  from initFeeders_length [OF fds] len have n: "length fds = length (mediaPath opts)"
    by simp
  from assms ok len fds have
    su: "param su = \<lparr>param_featurePreset = featurePreset opts,
                     param_refineIntrinsics = refineIntrinsics opts,
                     param_errorMax = rE,
                     param_resectionEstimator = resectionEstimator opts,
                     param_matchingEstimator = matchingEstimator opts,
                     param_useLocalizeRigNaive = useLocalizeRigNaive opts,
                     param_angularThreshold = D2R w (angularThreshold opts),
                     param_matchingError = (if useVoctreeLocalizer opts then Some mE else None)\<rparr>"
    and st0: "st0 = initial_state fds
                (if HAVE_ALEMBIC w then replicate (length (mediaPath opts)) [] else [])"
    by (auto simp: startup_def Let_def m r split: if_splits)
  show "fst (checkRobustEstimator (matchingEstimator opts) (matchingErrorMax opts))"
    using ok by (simp add: m)
  show "fst (checkRobustEstimator (resectionEstimator opts) (resectionErrorMax opts))"
    using ok by (simp add: r)
  show "param_errorMax (param su) =
           snd (checkRobustEstimator (resectionEstimator opts) (resectionErrorMax opts))"
    by (simp add: su r)
  show "param_matchingError (param su) =
           (if useVoctreeLocalizer opts
            then Some (snd (checkRobustEstimator (matchingEstimator opts) (matchingErrorMax opts)))
            else None)"
    by (simp add: su m)
  show "param_resectionEstimator (param su) = resectionEstimator opts"
    by (simp add: su)
  show "param_matchingEstimator (param su) = matchingEstimator opts"
    by (simp add: su)
  show "\<exists>fds. st0 = initial_state fds
                      (if HAVE_ALEMBIC w then replicate (length fds) [] else [])
            \<and> length fds = length (mediaPath opts)"
    using st0 n by (intro exI [of _ fds]) simp
qed

text \<open>
  Termination: when feed 0 has \<open>K\<close> frames left and every feed delivers an image with
  intrinsics for each of them, the loop attempts \<open>K\<close> frames, the \<open>i\<close>-th call of the
  engine being given the \<open>i\<close>-th frame of every feed, and ends at the \<^verbatim>\<open>break\<close>.
\<close>

lemma main_loop_runs:
  assumes "feeders st \<noteq> []"
    and "length (hd (feeders st)) = K"
    and "\<forall>fd \<in> set (feeders st). K \<le> length fd \<and> (\<forall>i<K. hasIntrinsics (fd ! i))"
    and "HAVE_ALEMBIC w \<longrightarrow> length (cameraExporters st) = length (feeders st)"
    and contract: "HAVE_ALEMBIC w \<longrightarrow>
           (\<forall>k q. isLocalized (localizeRig w k q) \<longrightarrow>
              length (localizationResults (localizeRig w k q)) = length (q_images q))"
  shows "\<exists>st'. main_loop w su st = Some (Break st')
           \<and> state_after w su (Suc K) st = Some st'
           \<and> feeders st' = map (drop K) (feeders st)
           \<and> (\<exists>more. localizeRigCalls st' = localizeRigCalls st @ more \<and> length more = K
                \<and> (\<forall>i<K. q_images (fst (more ! i))
                            = map (\<lambda>fd. imageGrey (fd ! i)) (feeders st)))"
  using assms(1-4)
proof (induction K arbitrary: st)
  case 0
  then obtain rest where f: "feeders st = [] # rest"
    by (cases "feeders st") auto
  have b: "loop_body w su st = Stop (Break st)"
    by (rule loop_body_exhausted [OF f])
  show ?case
    by (rule exI [of _ st]) (simp add: main_loop_Stop [OF b] b)
next
  case (Suc K)
  have nonempty: "fd \<noteq> []" if "fd \<in> set (feeders st)" for fd
    using Suc.prems(3) that by auto
  have rdy: "\<forall>fd \<in> set (feeders st). ready fd"
  proof
    fix fd assume m: "fd \<in> set (feeders st)"
    with Suc.prems(3) have "hasIntrinsics (fd ! 0)" by auto
    with nonempty [OF m] show "ready fd" by (cases fd) auto
  qed
  have res: "HAVE_ALEMBIC w \<longrightarrow> isLocalized (the_answer w su st) \<longrightarrow>
       length (localizationResults (the_answer w su st)) = length (feeders st)"
    using contract by (simp add: the_answer_def the_query_def)
  from loop_body_ready [OF rdy Suc.prems(1) Suc.prems(4) res]
  obtain st1 where step: "loop_body w su st = Continue st1" ..
  note c = loop_body_Continue [OF step]
  have p1: "feeders st1 \<noteq> []" using c Suc.prems(1) by simp
  have p2: "length (hd (feeders st1)) = K"
    using c Suc.prems(1,2) by (simp add: hd_map)
  have p3: "\<forall>fd \<in> set (feeders st1). K \<le> length fd \<and> (\<forall>i<K. hasIntrinsics (fd ! i))"
  proof
    fix fd1 assume "fd1 \<in> set (feeders st1)"
    with c obtain fd where m: "fd \<in> set (feeders st)" and fd1: "fd1 = tl fd" by auto
    from Suc.prems(3) m have "Suc K \<le> length fd" and "\<forall>i<Suc K. hasIntrinsics (fd ! i)"
      by auto
    then show "K \<le> length fd1 \<and> (\<forall>i<K. hasIntrinsics (fd1 ! i))"
      by (auto simp: fd1 nth_tl)
  qed
  have p4: "HAVE_ALEMBIC w \<longrightarrow> length (cameraExporters st1) = length (feeders st1)"
    using loop_body_Continue_export [OF step] c by simp
  from Suc.IH [OF p1 p2 p3 p4] obtain st' more where
    r: "main_loop w su st1 = Some (Break st')"
      "state_after w su (Suc K) st1 = Some st'"
      "feeders st' = map (drop K) (feeders st1)"
      "localizeRigCalls st' = localizeRigCalls st1 @ more" "length more = K"
      "\<forall>i<K. q_images (fst (more ! i)) = map (\<lambda>fd. imageGrey (fd ! i)) (feeders st1)"
    by blast
  let ?more = "(the_query su st, the_answer w su st) # more"
  have i0: "q_images (the_query su st) = map (\<lambda>fd. imageGrey (fd ! 0)) (feeders st)"
    using nonempty by (simp add: the_query_def hd_conv_nth)
  have iS: "map (\<lambda>fd. imageGrey (fd ! i)) (feeders st1)
          = map (\<lambda>fd. imageGrey (fd ! Suc i)) (feeders st)" if "i < K" for i
  proof -
    have "tl fd ! i = fd ! Suc i" if "fd \<in> set (feeders st)" for fd
      using Suc.prems(3) that \<open>i < K\<close> by (auto simp: nth_tl)
    then show ?thesis using c by simp
  qed
  have imgs: "\<forall>i<Suc K. q_images (fst (?more ! i))
                = map (\<lambda>fd. imageGrey (fd ! i)) (feeders st)"
  proof (intro allI impI)
    fix i assume "i < Suc K"
    then show "q_images (fst (?more ! i)) = map (\<lambda>fd. imageGrey (fd ! i)) (feeders st)"
      using i0 iS r(6) by (cases i) simp_all
  qed
  have "main_loop w su st = Some (Break st')"
    using main_loop_Continue [OF step] r(1) by simp
  moreover have "state_after w su (Suc (Suc K)) st = Some st'"
    using step r(2) by simp
  moreover have "feeders st' = map (drop (Suc K)) (feeders st)"
    using r(3) c by (simp add: drop_Suc)
  moreover have "localizeRigCalls st' = localizeRigCalls st @ ?more"
    using r(4) c by simp
  moreover have "length ?more = Suc K" using r(5) by simp
  ultimately show ?case using imgs by blast
qed

lemma final_finish: "final (finish e) = ending_state e"
  by (cases e) (simp_all add: finish_def)

lemma main_startup:
  "startup w opts = Inr (su, st0) \<Longrightarrow> main w opts = map_option finish (main_loop w su st0)"
  by (simp add: main_def)

lemma main_final_state_after:
  assumes "startup w opts = Inr (su, st0)" and "main w opts = Some r" and "final r = Some st"
  shows "\<exists>n. state_after w su n st0 = Some st"
proof -
  from assms(1,2) obtain e where e: "main_loop w su st0 = Some e" and r: "r = finish e"
    by (auto simp: main_startup)
  from assms(3) r have "ending_state e = Some st" by (simp add: final_finish)
  with main_loop_state_after [OF e] show ?thesis by blast
qed

lemma visited_history_inv:
  assumes "startup w opts = Inr (su, st0)"
    and "state_after w su n st0 = Some st \<or> (\<exists>r. main w opts = Some r \<and> final r = Some st)"
  shows "history_inv w su st"
proof -
  from assms obtain m where m: "state_after w su m st0 = Some st"
    by (auto dest: main_final_state_after)
  from startup_Inr(7) [OF assms(1)] obtain fds where
    "st0 = initial_state fds (if HAVE_ALEMBIC w then replicate (length fds) [] else [])"
    by blast
  with m show ?thesis by (auto intro: history_inv_state_after)
qed

lemma visited_export_inv:
  assumes "startup w opts = Inr (su, st0)"
    and "state_after w su n st0 = Some st \<or> (\<exists>r. main w opts = Some r \<and> final r = Some st)"
  shows "export_inv w st"
proof -
  from assms obtain m where m: "state_after w su m st0 = Some st"
    by (auto dest: main_final_state_after)
  from startup_Inr(7) [OF assms(1)] obtain fds where
    "st0 = initial_state fds (if HAVE_ALEMBIC w then replicate (length fds) [] else [])"
    by blast
  with m show ?thesis by (auto intro: export_inv_state_after)
qed

lemma feeders_length_state_after:
  "state_after w su n st0 = Some st \<Longrightarrow> length (feeders st) = length (feeders st0)"
proof (erule state_after_induct [where P = "\<lambda>s. length (feeders s) = length (feeders st0)"])
  show "length (feeders st0) = length (feeders st0)" ..
next
  fix s s' assume "length (feeders s) = length (feeders st0)" "loop_body w su s = Continue s'"
  then show "length (feeders s') = length (feeders st0)"
    by (auto dest: loop_body_Continue)
next
  fix s e s' assume "length (feeders s) = length (feeders st0)" "loop_body w su s = Stop (Return e s')"
  then show "length (feeders s') = length (feeders st0)"
    by (auto dest!: loop_body_Return dest: readCameras_length)
qed

lemmas example_defs =
  example_world_def example_options_def example_frame_def example_localizeRig_def

lemmas program_defs =
  main_def startup_def checkRobustEstimator_def initial_state_def loop_body_def
  readImage_def goToNextFrame_def finish_def accumulate_def acc_empty_def
  addCameraKeyframes_def report_def acc_mean_def Let_def

text \<open>
  A frame set is not complete: the read loop stops at the first feed that is not ready,
  and the program returns.
\<close>

lemma least_unready:
  assumes "i < length fds" and "\<not> ready (fds ! i)"
  shows "\<exists>j\<le>i. \<not> ready (fds ! j) \<and> (\<forall>k<j. ready (fds ! k))"
proof -
  let ?j = "LEAST j. \<not> ready (fds ! j)"
  have "\<not> ready (fds ! ?j)" using assms(2) by (rule LeastI)
  moreover have "?j \<le> i" using assms(2) by (rule Least_le)
  moreover have "\<forall>k<?j. ready (fds ! k)" using not_less_Least by blast
  ultimately show ?thesis by blast
qed

lemma loop_body_first_fault:
  assumes "i < length (feeders st)" and "\<forall>j<i. ready (feeders st ! j)"
    and "\<not> ready (feeders st ! i)" and "feeders st ! 0 \<noteq> []"
  shows "\<exists>st'. loop_body w su st =
           Stop (Return (case feeders st ! i of [] \<Rightarrow> FeedDesync i
                         | fr # _ \<Rightarrow> MissingIntrinsics i (currentImgName fr)) st')
         \<and> st' = st\<lparr>feeders := feeders st'\<rparr>"
proof -
  obtain fds r where rd: "readCameras 0 (feeders st) [] [] = (fds, r)"
    by (cases "readCameras 0 (feeders st) [] []") auto
  have r: "r = ReadFailure (case feeders st ! i of [] \<Rightarrow> FeedDesync i
                         | fr # _ \<Rightarrow> MissingIntrinsics i (currentImgName fr))"
  proof (cases "feeders st ! i")
    case Nil
    with assms(4) have "0 < i" by (cases i) auto
    with readCameras_first_fault [OF assms(1-3), of 0 "[]" "[]"] rd Nil show ?thesis
      by simp
  next
    case (Cons fr rest)
    with readCameras_first_fault [OF assms(1-3), of 0 "[]" "[]"] rd show ?thesis
      by simp
  qed
  show ?thesis
    by (rule exI [of _ "st\<lparr>feeders := fds\<rparr>"]) (simp add: loop_body_def rd r)
qed

lemma loop_body_fault:
  assumes "i < length (feeders st)" and "\<not> ready (feeders st ! i)" and "feeders st ! 0 \<noteq> []"
  shows "\<exists>e st'. loop_body w su st = Stop (Return e st') \<and> st' = st\<lparr>feeders := feeders st'\<rparr>"
proof -
  from least_unready [OF assms(1,2)] obtain j where
    j: "j \<le> i" "\<not> ready (feeders st ! j)" "\<forall>k<j. ready (feeders st ! k)"
    by blast
  with assms(1) have "j < length (feeders st)" by simp
  from loop_body_first_fault [OF this j(3) j(2) assms(3)] show ?thesis by blast
qed

lemma finish_Return: "status (finish (Return e st)) = EXIT_FAILURE"
  "summary (finish (Return e st)) = None" "diagnostic (finish (Return e st)) = Some e"
  by (simp_all add: finish_def)

lemma main_summary:
  assumes "main w opts = Some r" and "summary r = Some rep"
  shows "\<exists>su st0 st. startup w opts = Inr (su, st0) \<and> main_loop w su st0 = Some (Break st)
           \<and> r = finish (Break st) \<and> rep = report st \<and> final r = Some st"
proof (cases "startup w opts")
  case (Inl e)
  with assms show ?thesis by (auto simp: main_def)
next
  case (Inr p)
  obtain su st0 where p: "p = (su, st0)" by (cases p)
  with Inr assms(1) obtain e where e: "main_loop w su st0 = Some e" and r: "r = finish e"
    by (auto simp: main_def)
  from assms(2) r obtain st where "e = Break st" "rep = report st"
    by (cases e) (auto simp: finish_def)
  with Inr p e r show ?thesis by (auto simp: finish_def)
qed

lemma main_diagnostic_cases:
  assumes "main w opts = Some r"
  shows "(\<exists>e. startup w opts = Inl e \<and> diagnostic r = Some e \<and> summary r = None
              \<and> final r = None \<and> status r \<noteq> EXIT_SUCCESS)
       \<or> (\<exists>su st0 e. startup w opts = Inr (su, st0) \<and> main_loop w su st0 = Some e
              \<and> r = finish e)"
  using assms by (cases "startup w opts") (auto simp: main_def split: if_splits)

lemma initFeeders_error:
  "initFeeders w i zs = Inl e \<Longrightarrow> \<exists>j. e = FeedProviderInitFailed j"
  by (induction zs arbitrary: i) (auto split: prod.splits if_splits sum.splits)

lemma startup_Inl:
  assumes "startup w opts = Inl e"
  shows "e \<noteq> FeedDesync i \<and> e \<noteq> MissingIntrinsics i name"
  using assms
  by (auto simp: startup_def Let_def split: prod.splits if_splits sum.splits
      dest: initFeeders_error)

lemma checkRobustEstimator_accepts:
  assumes "fst (checkRobustEstimator e v)"
  shows "stored_threshold e v (snd (checkRobustEstimator e v))"
proof -
  from assms consider "e = ROBUST_ESTIMATOR_ACRANSAC"
    | "e = ROBUST_ESTIMATOR_LORANSAC" "\<not> double_le v minThreshold"
    by (auto simp: checkRobustEstimator_def Let_def split: if_splits)
  then show ?thesis
  proof cases
    case 1
    then show ?thesis
      by (simp add: checkRobustEstimator_def stored_threshold_def)
  next
    case 2
    from 2(2) have "v = NaN \<or> double_le (Finite 0) v"
      by (cases v) (auto simp: minThreshold_def)
    with 2 show ?thesis
      by (auto simp: checkRobustEstimator_def stored_threshold_def minThreshold_def)
  qed
qed

section \<open>Feeds of equal length\<close>

text \<open>
  C1. For every number of cameras \<open>N \<ge> 1\<close> and every configuration that passes the
  checks before the loop: if every feed yields exactly \<open>K\<close> frames (each with its
  intrinsics), and the engine returns one result for each image whenever it reports the
  rig localized, then the program ends with exit status 0 and no error message, after
  feed 0 has signalled that it has no image left. The loop has attempted exactly \<open>K\<close>
  frames: the engine was called \<open>K\<close> times, the frame counter is \<open>K\<close>, and
  \<^verbatim>\<open>rigResultPerFrame\<close> has exactly \<open>K\<close> entries, the \<open>i\<close>-th being what the engine
  returned for the \<open>i\<close>-th frame of every feed.
\<close>

theorem equal_feeds_run_to_completion:
  assumes "startup w opts = Inr (su, st0)"
    and "mediaPath opts \<noteq> []"
    and "\<forall>fd \<in> set (feeders st0). length fd = K \<and> (\<forall>fr \<in> set fd. hasIntrinsics fr)"
    and "HAVE_ALEMBIC w \<longrightarrow>
           (\<forall>k q. isLocalized (localizeRig w k q) \<longrightarrow>
              length (localizationResults (localizeRig w k q)) = length (q_images q))"
  shows "\<exists>r st. main w opts = Some r \<and> status r = EXIT_SUCCESS \<and> diagnostic r = None
           \<and> final r = Some st
           \<and> frameCounter st = K \<and> length (localizeRigCalls st) = K
           \<and> length (rigResultPerFrame st) = K
           \<and> (\<forall>i<K. rigResultPerFrame st ! i = localizationResults (snd (localizeRigCalls st ! i))
                     \<and> snd (localizeRigCalls st ! i)
                         = localizeRig w i (fst (localizeRigCalls st ! i))
                     \<and> q_images (fst (localizeRigCalls st ! i))
                         = map (\<lambda>fd. imageGrey (fd ! i)) (feeders st0))"
proof -
  from startup_Inr(7) [OF assms(1)] obtain fds where
    st0: "st0 = initial_state fds (if HAVE_ALEMBIC w then replicate (length fds) [] else [])"
    and n: "length fds = length (mediaPath opts)"
    by blast
  have f: "feeders st0 = fds" and c0: "localizeRigCalls st0 = []"
    and t: "HAVE_ALEMBIC w \<longrightarrow> length (cameraExporters st0) = length (feeders st0)"
    by (simp_all add: st0 initial_state_def)
  from n assms(2) have ne: "feeders st0 \<noteq> []" by (auto simp: f)
  then have "hd (feeders st0) \<in> set (feeders st0)" by simp
  with assms(3) have h: "length (hd (feeders st0)) = K" by blast
  have all: "\<forall>fd \<in> set (feeders st0). K \<le> length fd \<and> (\<forall>i<K. hasIntrinsics (fd ! i))"
    using assms(3) by auto
  from main_loop_runs [OF ne h all t assms(4), of su] c0 obtain st where
    run: "main_loop w su st0 = Some (Break st)"
    and after: "state_after w su (Suc K) st0 = Some st"
    and len: "length (localizeRigCalls st) = K"
    and imgs: "\<forall>i<K. q_images (fst (localizeRigCalls st ! i))
                 = map (\<lambda>fd. imageGrey (fd ! i)) (feeders st0)"
    by auto
  from after have inv: "history_inv w su st"
    unfolding st0 by (rule history_inv_state_after)
  have m: "main w opts = Some (finish (Break st))"
    by (simp add: main_startup [OF assms(1)] run)
  from inv len imgs have
    "frameCounter st = K \<and> length (localizeRigCalls st) = K \<and> length (rigResultPerFrame st) = K
      \<and> (\<forall>i<K. rigResultPerFrame st ! i = localizationResults (snd (localizeRigCalls st ! i))
                \<and> snd (localizeRigCalls st ! i) = localizeRig w i (fst (localizeRigCalls st ! i))
                \<and> q_images (fst (localizeRigCalls st ! i))
                    = map (\<lambda>fd. imageGrey (fd ! i)) (feeders st0))"
    by (simp add: history_inv_def)
  with m show ?thesis
    by (intro exI [of _ "finish (Break st)"] exI [of _ st]) (simp add: finish_def)
qed



text \<open>The theorem at two feeds of three frames each.\<close>

theorem equal_feeds_run_to_completion_witness:
  "\<exists>r st. main (example_world
                 [example_frame 1 True, example_frame 2 True, example_frame 3 True]
                 [example_frame 4 True, example_frame 5 True, example_frame 6 True])
               example_options = Some r
     \<and> status r = EXIT_SUCCESS \<and> final r = Some st \<and> frameCounter st = 3
     \<and> length (rigResultPerFrame st) = 3"
proof -
  let ?w = "example_world
                 [example_frame 1 True, example_frame 2 True, example_frame 3 True]
                 [example_frame 4 True, example_frame 5 True, example_frame 6 True]"
  have "\<exists>su st0. startup ?w example_options = Inr (su, st0)
          \<and> feeders st0 = [[example_frame 1 True, example_frame 2 True, example_frame 3 True],
                            [example_frame 4 True, example_frame 5 True, example_frame 6 True]]"
    by (simp add: example_defs startup_def checkRobustEstimator_def initial_state_def)
  then obtain su st0 where s: "startup ?w example_options = Inr (su, st0)"
    and f: "feeders st0 = [[example_frame 1 True, example_frame 2 True, example_frame 3 True],
                            [example_frame 4 True, example_frame 5 True, example_frame 6 True]]"
    by blast
  have n: "mediaPath example_options \<noteq> []"
    by (simp add: example_options_def)
  have k: "\<forall>fd \<in> set (feeders st0). length fd = 3 \<and> (\<forall>fr \<in> set fd. hasIntrinsics fr)"
    by (simp add: f example_frame_def)
  have c: "HAVE_ALEMBIC ?w \<longrightarrow>
           (\<forall>k q. isLocalized (localizeRig ?w k q) \<longrightarrow>
              length (localizationResults (localizeRig ?w k q)) = length (q_images q))"
    by (simp add: example_world_def example_localizeRig_def)
  from equal_feeds_run_to_completion [OF s n k c] show ?thesis
    by blast
qed

section \<open>A feed other than feed 0 exhausted\<close>

text \<open>
  C2. In an iteration in which feed 0 has an image and a feed \<open>i > 0\<close> has none left, the
  program leaves the loop at once through \<^verbatim>\<open>return EXIT_FAILURE\<close>, with a message on
  the error stream. Apart from the feeds nothing has changed: the engine is not called and
  nothing is recorded for the partial frame set. When feed \<open>i\<close> is the feed at which the
  read loop stops, every feed before it having delivered an image with its intrinsics, the
  message is the one of the desynchronization of camera \<open>i\<close>.
\<close>

theorem secondary_feed_exhaustion_aborts:
  assumes "0 < i" and "i < length (feeders st)"
    and "feeders st ! 0 \<noteq> []" and "feeders st ! i = []"
  shows "\<exists>e st'. loop_body w su st = Stop (Return e st')
           \<and> main_loop w su st = Some (Return e st')
           \<and> status (finish (Return e st')) = EXIT_FAILURE
           \<and> st' = st\<lparr>feeders := feeders st'\<rparr>
           \<and> localizeRigCalls st' = localizeRigCalls st
           \<and> rigResultPerFrame st' = rigResultPerFrame st
           \<and> ((\<forall>j<i. ready (feeders st ! j)) \<longrightarrow> e = FeedDesync i)"
proof -
  from assms(4) have nr: "\<not> ready (feeders st ! i)" by simp
  from loop_body_fault [OF assms(2) nr assms(3)] obtain e st' where
    step: "loop_body w su st = Stop (Return e st')" and same: "st' = st\<lparr>feeders := feeders st'\<rparr>"
    by blast
  have kind: "e = FeedDesync i" if "\<forall>j<i. ready (feeders st ! j)"
    using loop_body_first_fault [OF assms(2) that nr assms(3), of w su] step assms(4)
    by simp
  have "localizeRigCalls st' = localizeRigCalls st" "rigResultPerFrame st' = rigResultPerFrame st"
    by (subst same, simp)+
  with step same kind main_loop_Stop [OF step] show ?thesis
    by (auto simp: finish_Return)
qed

text \<open>The theorem at two cameras, the second feed empty.\<close>

theorem secondary_feed_exhaustion_aborts_witness:
  "\<exists>st'. main_loop (example_world [] []) example_setup
            (initial_state [[example_frame 2 True], []] [[], []])
          = Some (Return (FeedDesync 1) st')
        \<and> localizeRigCalls st' = []"
proof -
  let ?st = "initial_state [[example_frame 2 True], []] [[], []]"
  have a: "(0::nat) < 1" by simp
  have b: "1 < length (feeders ?st)" by (simp add: initial_state_def)
  have c: "feeders ?st ! 0 \<noteq> []" by (simp add: initial_state_def)
  have d: "feeders ?st ! 1 = []" by (simp add: initial_state_def)
  have e: "\<forall>j<1. ready (feeders ?st ! j)" by (simp add: initial_state_def example_frame_def)
  have f: "localizeRigCalls ?st = []" by (simp add: initial_state_def)
  from secondary_feed_exhaustion_aborts [OF a b c d, of "example_world [] []" example_setup] e f
  show ?thesis by auto
qed

section \<open>Feed 0 exhausted before the others\<close>

text \<open>
  C3, as stated, fails: feed 0 has one frame and feed 1 has two. After frame 0, feed 0 is
  exhausted at frame 1 while feed 1 still has a frame; the program ends with exit status
  0 and no error message, the second frame of feed 1 unread.
\<close>

theorem primary_feed_exhaustion_counterexample:
  "map_option status
     (main (example_world [example_frame 1 True] [example_frame 4 True, example_frame 5 True])
        example_options) = Some EXIT_SUCCESS
   \<and> map_option diagnostic
     (main (example_world [example_frame 1 True] [example_frame 4 True, example_frame 5 True])
        example_options) = Some None
   \<and> map_option feeders (Option.bind
     (main (example_world [example_frame 1 True] [example_frame 4 True, example_frame 5 True])
        example_options) final) = Some [[], [example_frame 5 True]]
   \<and> map_option frameCounter (Option.bind
     (main (example_world [example_frame 1 True] [example_frame 4 True, example_frame 5 True])
        example_options) final) = Some 1"
  by (simp add: example_defs program_defs main_loop.simps)

text \<open>
  C3, amended. If feed 0 is exhausted at frame \<open>K\<close>, every feed having delivered an
  image with intrinsics for each of the frames \<open>0..K-1\<close>, then the program ends normally
  at frame \<open>K\<close> with exit status 0 and no error message, whether or not a feed
  \<open>i > 0\<close> still has data; the result log holds exactly \<open>K\<close> entries, and every feed
  is left \<open>K\<close> frames further.
\<close>

theorem primary_feed_exhaustion_completes:
  assumes "startup w opts = Inr (su, st0)"
    and "mediaPath opts \<noteq> []"
    and "length (feeders st0 ! 0) = K"
    and "\<forall>fd \<in> set (feeders st0). K \<le> length fd \<and> (\<forall>i<K. hasIntrinsics (fd ! i))"
    and "HAVE_ALEMBIC w \<longrightarrow>
           (\<forall>k q. isLocalized (localizeRig w k q) \<longrightarrow>
              length (localizationResults (localizeRig w k q)) = length (q_images q))"
  shows "\<exists>r st. main w opts = Some r \<and> status r = EXIT_SUCCESS \<and> diagnostic r = None
           \<and> final r = Some st
           \<and> frameCounter st = K \<and> length (localizeRigCalls st) = K
           \<and> length (rigResultPerFrame st) = K
           \<and> feeders st = map (drop K) (feeders st0)"
proof -
  from startup_Inr(7) [OF assms(1)] obtain fds where
    st0: "st0 = initial_state fds (if HAVE_ALEMBIC w then replicate (length fds) [] else [])"
    and n: "length fds = length (mediaPath opts)"
    by blast
  have f: "feeders st0 = fds" and c0: "localizeRigCalls st0 = []"
    and t: "HAVE_ALEMBIC w \<longrightarrow> length (cameraExporters st0) = length (feeders st0)"
    by (simp_all add: st0 initial_state_def)
  from n assms(2) have ne: "feeders st0 \<noteq> []" by (auto simp: f)
  with assms(3) have h: "length (hd (feeders st0)) = K" by (simp add: hd_conv_nth)
  from main_loop_runs [OF ne h assms(4) t assms(5), of su] c0 obtain st where
    run: "main_loop w su st0 = Some (Break st)"
    and after: "state_after w su (Suc K) st0 = Some st"
    and len: "length (localizeRigCalls st) = K"
    and fs: "feeders st = map (drop K) (feeders st0)"
    by auto
  from after have inv: "history_inv w su st"
    unfolding st0 by (rule history_inv_state_after)
  have m: "main w opts = Some (finish (Break st))"
    by (simp add: main_startup [OF assms(1)] run)
  from inv len have
    "frameCounter st = K \<and> length (localizeRigCalls st) = K \<and> length (rigResultPerFrame st) = K"
    by (simp add: history_inv_def)
  with m fs show ?thesis
    by (intro exI [of _ "finish (Break st)"] exI [of _ st]) (simp add: finish_def)
qed

text \<open>The theorem at the feeds of the counterexample.\<close>

theorem primary_feed_exhaustion_completes_witness:
  "\<exists>r st. main (example_world [example_frame 1 True]
                    [example_frame 4 True, example_frame 5 True]) example_options = Some r
     \<and> status r = EXIT_SUCCESS \<and> final r = Some st \<and> length (rigResultPerFrame st) = 1"
proof -
  let ?w = "example_world [example_frame 1 True] [example_frame 4 True, example_frame 5 True]"
  have "\<exists>su st0. startup ?w example_options = Inr (su, st0)
          \<and> feeders st0 = [[example_frame 1 True], [example_frame 4 True, example_frame 5 True]]"
    by (simp add: example_defs startup_def checkRobustEstimator_def initial_state_def)
  then obtain su st0 where s: "startup ?w example_options = Inr (su, st0)"
    and f: "feeders st0 = [[example_frame 1 True], [example_frame 4 True, example_frame 5 True]]"
    by blast
  have n: "mediaPath example_options \<noteq> []"
    by (simp add: example_options_def)
  have h: "length (feeders st0 ! 0) = 1"
    by (simp add: f)
  have k: "\<forall>fd \<in> set (feeders st0). 1 \<le> length fd \<and> (\<forall>i<1. hasIntrinsics (fd ! i))"
    by (simp add: f example_frame_def)
  have c: "HAVE_ALEMBIC ?w \<longrightarrow>
           (\<forall>k q. isLocalized (localizeRig ?w k q) \<longrightarrow>
              length (localizationResults (localizeRig ?w k q)) = length (q_images q))"
    by (simp add: example_world_def example_localizeRig_def)
  from primary_feed_exhaustion_completes [OF s n h k c] show ?thesis
    by blast
qed

section \<open>Threshold validation\<close>

text \<open>
  C4. With the ACRANSAC estimator a threshold of exactly 0 is accepted and replaced by
  +infinity. With the LORANSAC estimator every threshold that is at most 1e-6 is rejected
  (so 0 and 1e-7 are), and 1.0 is accepted and left as it is. With any estimator other than
  these two every threshold is rejected.
\<close>

theorem checkRobustEstimator_cases:
  "checkRobustEstimator ROBUST_ESTIMATOR_ACRANSAC (Finite 0) = (True, PosInf)
   \<and> (\<forall>v. double_le v (Finite (1 / 10 ^ 6))
          \<longrightarrow> fst (checkRobustEstimator ROBUST_ESTIMATOR_LORANSAC v) = False)
   \<and> fst (checkRobustEstimator ROBUST_ESTIMATOR_LORANSAC (Finite 0)) = False
   \<and> fst (checkRobustEstimator ROBUST_ESTIMATOR_LORANSAC (Finite (1 / 10 ^ 7))) = False
   \<and> checkRobustEstimator ROBUST_ESTIMATOR_LORANSAC (Finite 1) = (True, Finite 1)
   \<and> (\<forall>k v. fst (checkRobustEstimator (ROBUST_ESTIMATOR_OTHER k) v) = False)"
  by (simp add: checkRobustEstimator_def minThreshold_def)

text \<open>The second part at the threshold \<open>2 ^ -20\<close>, which is below \<^verbatim>\<open>1e-6\<close>.\<close>

theorem checkRobustEstimator_cases_witness:
  "double_le (Finite (1 / 2 ^ 20)) (Finite (1 / 10 ^ 6))
   \<and> fst (checkRobustEstimator ROBUST_ESTIMATOR_LORANSAC (Finite (1 / 2 ^ 20))) = False"
proof -
  have small: "double_le (Finite (1 / 2 ^ 20)) (Finite (1 / 10 ^ 6))"
    by simp
  from checkRobustEstimator_cases
  have "\<forall>v. double_le v (Finite (1 / 10 ^ 6))
          \<longrightarrow> fst (checkRobustEstimator ROBUST_ESTIMATOR_LORANSAC v) = False"
    by blast
  with small show ?thesis
    by blast
qed

section \<open>The statistics of the summary\<close>

text \<open>
  C5. The duration measured for a frame is fed into the accumulator whether the engine
  localized the frame or not. So when the summary is printed, the accumulator holds
  exactly the durations of all attempted frames, in the order of the calls of the engine:
  the number of images of the report is the number of attempted frames, the number of
  localized images is the number of frames the engine localized, and the sum (printed in
  seconds, that is divided by 1000), the mean, the max and the min are those of all these
  durations. For the durations 10, 20, 30 ms with the outcomes localized, failed,
  localized the report shows 3 images, 2 of them localized, a sum of 60 ms, a mean of
  20 ms, a min of 10 ms and a max of 30 ms.
\<close>

theorem statistics_cover_all_attempted_frames:
  assumes "main w opts = Some r" and "summary r = Some rep"
  shows "\<exists>st. final r = Some st
     \<and> (\<forall>i < length (localizeRigCalls st).
           snd (localizeRigCalls st ! i) = localizeRig w i (fst (localizeRigCalls st ! i)))
     \<and> stats st = acc_of (durations st)
     \<and> totalImages rep = length (durations st)
     \<and> localizedImages rep
           = length (filter (\<lambda>c. isLocalized (snd c)) (localizeRigCalls st))
     \<and> overallSeconds rep = real_of_int (sum_list (durations st)) / 1000
     \<and> meanTime rep =
          (if durations st = [] then None
           else Some (real_of_int (sum_list (durations st)) / real (length (durations st))))
     \<and> maxTime rep = (if durations st = [] then None else Some (Max (set (durations st))))
     \<and> minTime rep = (if durations st = [] then None else Some (Min (set (durations st))))
     \<and> (durations st = [10, 20, 30] \<and> failures st = [False, True, False]
          \<longrightarrow> rep = \<lparr>localizedImages = 2, totalImages = 3, overallSeconds = 60 / 1000,
                     meanTime = Some 20, maxTime = Some 30, minTime = Some 10\<rparr>)"
proof -
  from main_summary [OF assms] obtain su st0 st where
    s: "startup w opts = Inr (su, st0)" and rep: "rep = report st" and fin: "final r = Some st"
    by blast
  from assms(1) fin have "history_inv w su st"
    by (intro visited_history_inv [OF s, of 0]) blast
  then have inv: "frameCounter st = length (localizeRigCalls st)"
    "numLocalizedFrames st = length (filter (\<lambda>c. isLocalized (snd c)) (localizeRigCalls st))"
    "stats st = acc_of (durations st)"
    "\<forall>i < length (localizeRigCalls st).
        snd (localizeRigCalls st ! i) = localizeRig w i (fst (localizeRigCalls st ! i))"
    by (simp_all add: history_inv_def)
  have total: "totalImages rep = length (durations st)"
    by (simp add: rep report_def inv(1) durations_def)
  have loc: "localizedImages rep
               = length (filter (\<lambda>c. isLocalized (snd c)) (localizeRigCalls st))"
    by (simp add: rep report_def inv(2))
  have loc': "localizedImages rep = length (filter Not (failures st))"
    by (simp add: loc failures_def filter_map comp_def)
  have secs: "overallSeconds rep = real_of_int (sum_list (durations st)) / 1000"
    by (simp add: rep report_def inv(3) acc_of_sum)
  have mean: "meanTime rep =
          (if durations st = [] then None
           else Some (real_of_int (sum_list (durations st)) / real (length (durations st))))"
    by (simp add: rep report_def inv(3) acc_mean_def acc_of_sum acc_of_count)
  have mx: "maxTime rep = (if durations st = [] then None else Some (Max (set (durations st))))"
    by (simp add: rep report_def inv(3) acc_of_max)
  have mn: "minTime rep = (if durations st = [] then None else Some (Min (set (durations st))))"
    by (simp add: rep report_def inv(3) acc_of_min)
  have ex: "rep = \<lparr>localizedImages = 2, totalImages = 3, overallSeconds = 60 / 1000,
                     meanTime = Some 20, maxTime = Some 30, minTime = Some 10\<rparr>"
    if "durations st = [10, 20, 30]" "failures st = [False, True, False]"
    using total loc' secs mean mx mn that by (cases rep) simp
  from fin inv(3,4) total loc secs mean mx mn ex show ?thesis
    by blast
qed

text \<open>
  The theorem at the run of the example: two feeds of three frames, the engine taking 10,
  20 and 30 ms and failing on the second frame.
\<close>

theorem statistics_cover_all_attempted_frames_witness:
  "\<exists>r st. main (example_world
                 [example_frame 1 True, example_frame 2 True, example_frame 3 True]
                 [example_frame 4 True, example_frame 5 True, example_frame 6 True])
               example_options = Some r
     \<and> summary r = Some \<lparr>localizedImages = 2, totalImages = 3, overallSeconds = 60 / 1000,
                           meanTime = Some 20, maxTime = Some 30, minTime = Some 10\<rparr>
     \<and> final r = Some st
     \<and> durations st = [10, 20, 30] \<and> failures st = [False, True, False]
     \<and> stats st = acc_of (durations st)"
proof -
  let ?w = "example_world
                 [example_frame 1 True, example_frame 2 True, example_frame 3 True]
                 [example_frame 4 True, example_frame 5 True, example_frame 6 True]"
  let ?rep = "\<lparr>localizedImages = 2, totalImages = 3, overallSeconds = 60 / 1000,
                meanTime = Some 20, maxTime = Some 30, minTime = Some (10::int)\<rparr>"
  have "\<exists>r st. main ?w example_options = Some r \<and> summary r = Some ?rep \<and> final r = Some st
           \<and> durations st = [10, 20, 30] \<and> failures st = [False, True, False]"
    by (simp add: example_defs program_defs main_loop.simps durations_def failures_def)
  then obtain r st where m: "main ?w example_options = Some r" and s: "summary r = Some ?rep"
    and f: "final r = Some st" and d: "durations st = [10, 20, 30]"
    and l: "failures st = [False, True, False]"
    by blast
  from statistics_cover_all_attempted_frames [OF m s] f have "stats st = acc_of (durations st)"
    by auto
  with m s f d l show ?thesis by blast
qed

section \<open>The summary after an abort\<close>

text \<open>
  C6, as stated, fails: feed 0 has two frames and feed 1 has one. Frame 0 is attempted and
  its 10 ms are accumulated; at frame 1 feed 1 has no image, and the program returns
  \<^verbatim>\<open>EXIT_FAILURE\<close> from inside the loop, past the lines that print the summary: no
  summary is printed.
\<close>

theorem abort_summary_counterexample:
  "map_option status
     (main (example_world [example_frame 1 True, example_frame 2 True] [example_frame 4 True])
        example_options) = Some EXIT_FAILURE
   \<and> map_option diagnostic
     (main (example_world [example_frame 1 True, example_frame 2 True] [example_frame 4 True])
        example_options) = Some (Some (FeedDesync 1))
   \<and> map_option summary
     (main (example_world [example_frame 1 True, example_frame 2 True] [example_frame 4 True])
        example_options) = Some None
   \<and> map_option stats (Option.bind
     (main (example_world [example_frame 1 True, example_frame 2 True] [example_frame 4 True])
        example_options) final)
     = Some \<lparr>acc_count = 1, acc_sum = 10, acc_min = Some 10, acc_max = Some 10\<rparr>"
  by (simp add: example_defs program_defs main_loop.simps)

text \<open>
  C6, amended. When the run aborts in mid-stream, on a feed desynchronization or on
  missing intrinsics, the program returns the failure status at once and prints no
  summary; the statistics of the frames attempted before the abort are in the accumulator,
  one sample for each attempted frame, and are not reported.
\<close>

theorem abort_returns_without_summary:
  assumes "main w opts = Some r"
    and "diagnostic r = Some (FeedDesync i) \<or> diagnostic r = Some (MissingIntrinsics i name)"
  shows "status r = EXIT_FAILURE \<and> summary r = None
     \<and> (\<exists>st. final r = Some st \<and> stats st = acc_of (durations st)
              \<and> length (durations st) = frameCounter st)"
proof -
  from main_diagnostic_cases [OF assms(1)] show ?thesis
  proof (elim disjE exE conjE)
    fix e assume "startup w opts = Inl e" "diagnostic r = Some e"
    with assms(2) startup_Inl [of w opts e i name] show ?thesis
      by auto
  next
    fix su st0 e
    assume s: "startup w opts = Inr (su, st0)" and e: "main_loop w su st0 = Some e"
      and r: "r = finish e"
    from assms(2) r obtain err st where ret: "e = Return err st"
      by (cases e) (auto simp: finish_def)
    with r have fin: "final r = Some st" by (simp add: finish_def)
    with assms(1) have "history_inv w su st"
      by (intro visited_history_inv [OF s, of 0]) blast
    then have "stats st = acc_of (durations st)" "length (durations st) = frameCounter st"
      by (simp_all add: history_inv_def durations_def)
    with r ret fin show ?thesis by (simp add: finish_def)
  qed
qed

text \<open>The theorem at the run of the counterexample.\<close>

theorem abort_returns_without_summary_witness:
  "\<exists>r st. main (example_world [example_frame 1 True, example_frame 2 True]
                    [example_frame 4 True]) example_options = Some r
     \<and> diagnostic r = Some (FeedDesync 1)
     \<and> status r = EXIT_FAILURE \<and> summary r = None
     \<and> final r = Some st \<and> stats st = acc_of (durations st)
     \<and> length (durations st) = frameCounter st"
proof -
  let ?w = "example_world [example_frame 1 True, example_frame 2 True] [example_frame 4 True]"
  have "\<exists>r. main ?w example_options = Some r \<and> diagnostic r = Some (FeedDesync 1)"
    by (simp add: example_defs program_defs main_loop.simps)
  then obtain r where m: "main ?w example_options = Some r"
    and d: "diagnostic r = Some (FeedDesync 1)"
    by blast
  from d have "diagnostic r = Some (FeedDesync 1) \<or> diagnostic r = Some (MissingIntrinsics 1 [])"
    by simp
  from abort_returns_without_summary [OF m this] m d show ?thesis
    by blast
qed

section \<open>The exported tracks\<close>

text \<open>
  C7. In a build with the exporter, at the head of the loop after any number of
  iterations and when the program has ended: with \<open>M\<close> the number of frames attempted
  so far, the rig track and the track of each camera (one for each media path) have
  length \<open>M\<close>, and their entry at position \<open>i\<close> is a gap marker if and only if the
  engine did not localize frame \<open>i\<close>. So each attempted frame has given every track one
  entry: a keyframe on success, a gap marker on failure.
\<close>

theorem exported_tracks_aligned_with_frames:
  assumes "startup w opts = Inr (su, st0)" and "HAVE_ALEMBIC w"
    and "state_after w su n st0 = Some st \<or> (\<exists>r. main w opts = Some r \<and> final r = Some st)"
  shows "length (failures st) = frameCounter st
     \<and> (\<forall>i < frameCounter st.
           failures st ! i = (\<not> isLocalized (localizeRig w i (fst (localizeRigCalls st ! i)))))
     \<and> length (exporter st) = frameCounter st
     \<and> (\<forall>i < frameCounter st. is_gap (exporter st ! i) = failures st ! i)
     \<and> length (cameraExporters st) = length (mediaPath opts)
     \<and> (\<forall>track \<in> set (cameraExporters st).
           length track = frameCounter st
           \<and> (\<forall>i < frameCounter st. is_gap (track ! i) = failures st ! i))"
proof -
  from assms(1,3) obtain m where m: "state_after w su m st0 = Some st"
    by (auto dest: main_final_state_after)
  from startup_Inr(7) [OF assms(1)] obtain fds where
    st0: "st0 = initial_state fds (if HAVE_ALEMBIC w then replicate (length fds) [] else [])"
    and n: "length fds = length (mediaPath opts)"
    by blast
  have h: "history_inv w su st" by (rule visited_history_inv [OF assms(1,3)])
  have x: "export_inv w st" by (rule visited_export_inv [OF assms(1,3)])
  from h have fc: "frameCounter st = length (localizeRigCalls st)"
    and eng: "\<forall>i < length (localizeRigCalls st).
        snd (localizeRigCalls st ! i) = localizeRig w i (fst (localizeRigCalls st ! i))"
    by (simp_all add: history_inv_def)
  from x assms(2) have tr: "length (cameraExporters st) = length (feeders st)"
    and rig: "map is_gap (exporter st) = failures st"
    and cams: "\<forall>track \<in> set (cameraExporters st). map is_gap track = failures st"
    by (simp_all add: export_inv_def)
  have lf: "length (failures st) = frameCounter st"
    by (simp add: failures_def fc)
  have 1: "\<forall>i < frameCounter st.
           failures st ! i = (\<not> isLocalized (localizeRig w i (fst (localizeRigCalls st ! i))))"
    using eng by (simp add: failures_def fc)
  have aligned: "length track = frameCounter st
      \<and> (\<forall>i < frameCounter st. is_gap (track ! i) = failures st ! i)"
    if "map is_gap track = failures st" for track
  proof -
    from that lf have l: "length track = frameCounter st"
      by (metis length_map)
    have "is_gap (track ! i) = failures st ! i" if "i < frameCounter st" for i
      using \<open>map is_gap track = failures st\<close> that l by (metis nth_map)
    with l show ?thesis by blast
  qed
  have 2: "length (cameraExporters st) = length (mediaPath opts)"
    using tr feeders_length_state_after [OF m] n by (simp add: st0 initial_state_def)
  from lf 1 aligned [OF rig] 2 cams aligned show ?thesis
    by blast
qed

text \<open>The theorem at the run of the example, whose second frame is not localized.\<close>

theorem exported_tracks_aligned_with_frames_witness:
  "\<exists>r st. main (example_world
                 [example_frame 1 True, example_frame 2 True, example_frame 3 True]
                 [example_frame 4 True, example_frame 5 True, example_frame 6 True])
               example_options = Some r
     \<and> final r = Some st \<and> frameCounter st = 3
     \<and> failures st = [False, True, False]
     \<and> length (exporter st) = frameCounter st
     \<and> is_gap (exporter st ! 1) \<and> \<not> is_gap (exporter st ! 0) \<and> \<not> is_gap (exporter st ! 2)
     \<and> length (cameraExporters st) = 2"
proof -
  let ?w = "example_world
                 [example_frame 1 True, example_frame 2 True, example_frame 3 True]
                 [example_frame 4 True, example_frame 5 True, example_frame 6 True]"
  have "\<exists>su st0. startup ?w example_options = Inr (su, st0)"
    by (simp add: example_defs startup_def checkRobustEstimator_def)
  then obtain su st0 where s: "startup ?w example_options = Inr (su, st0)"
    by blast
  have a: "HAVE_ALEMBIC ?w" by (simp add: example_world_def)
  have "\<exists>r st. main ?w example_options = Some r \<and> final r = Some st \<and> frameCounter st = 3
           \<and> failures st = [False, True, False]"
    by (simp add: example_defs program_defs main_loop.simps failures_def)
  then obtain r st where m: "main ?w example_options = Some r" and f: "final r = Some st"
    and c: "frameCounter st = 3" and l: "failures st = [False, True, False]"
    by blast
  from m f have v: "state_after ?w su 0 st0 = Some st
      \<or> (\<exists>r. main ?w example_options = Some r \<and> final r = Some st)"
    by blast
  have p: "length (mediaPath example_options) = 2" by (simp add: example_options_def)
  from exported_tracks_aligned_with_frames [OF s a v]
  have len: "length (exporter st) = frameCounter st"
    and gaps: "\<forall>i < frameCounter st. is_gap (exporter st ! i) = failures st ! i"
    and cams: "length (cameraExporters st) = length (mediaPath example_options)"
    by blast+
  from gaps c l have "is_gap (exporter st ! 1)" "\<not> is_gap (exporter st ! 0)"
    "\<not> is_gap (exporter st ! 2)"
    by simp_all
  with m f c l len cams p show ?thesis
    by (intro exI [of _ r] exI [of _ st]) simp
qed

section \<open>An image without intrinsics\<close>

text \<open>
  C8. In an iteration in which feed 0 has an image and the current frame of a feed \<open>i\<close>
  comes without intrinsics, the program leaves the loop at once through
  \<^verbatim>\<open>return EXIT_FAILURE\<close>, with a message on the error stream. Apart from the feeds
  nothing has changed: the engine is not called on that frame set. When feed \<open>i\<close> returns
  that image, every feed before it having delivered an image with its intrinsics, the
  message is the one of the missing calibration of camera \<open>i\<close>, with the name of the
  image.
\<close>

theorem missing_intrinsics_aborts:
  assumes "i < length (feeders st)" and "feeders st ! 0 \<noteq> []"
    and "feeders st ! i = fr # rest" and "\<not> hasIntrinsics fr"
  shows "\<exists>e st'. loop_body w su st = Stop (Return e st')
           \<and> main_loop w su st = Some (Return e st')
           \<and> status (finish (Return e st')) = EXIT_FAILURE
           \<and> st' = st\<lparr>feeders := feeders st'\<rparr>
           \<and> localizeRigCalls st' = localizeRigCalls st
           \<and> rigResultPerFrame st' = rigResultPerFrame st
           \<and> ((\<forall>j<i. ready (feeders st ! j))
                \<longrightarrow> e = MissingIntrinsics i (currentImgName fr))"
proof -
  from assms(3,4) have nr: "\<not> ready (feeders st ! i)" by simp
  from loop_body_fault [OF assms(1) nr assms(2)] obtain e st' where
    step: "loop_body w su st = Stop (Return e st')" and same: "st' = st\<lparr>feeders := feeders st'\<rparr>"
    by blast
  have kind: "e = MissingIntrinsics i (currentImgName fr)" if "\<forall>j<i. ready (feeders st ! j)"
    using loop_body_first_fault [OF assms(1) that nr assms(2), of w su] step assms(3)
    by simp
  have "localizeRigCalls st' = localizeRigCalls st" "rigResultPerFrame st' = rigResultPerFrame st"
    by (subst same, simp)+
  with step same kind main_loop_Stop [OF step] show ?thesis
    by (auto simp: finish_Return)
qed

text \<open>The theorem at two cameras, the frame of the second without intrinsics.\<close>

theorem missing_intrinsics_aborts_witness:
  "\<exists>st'. main_loop (example_world [] []) example_setup
            (initial_state [[example_frame 2 True], [example_frame 5 False]] [[], []])
          = Some (Return (MissingIntrinsics 1 ''img'') st')
        \<and> localizeRigCalls st' = []"
proof -
  let ?st = "initial_state [[example_frame 2 True], [example_frame 5 False]] [[], []]"
  have b: "1 < length (feeders ?st)" by (simp add: initial_state_def)
  have c: "feeders ?st ! 0 \<noteq> []" by (simp add: initial_state_def)
  have d: "feeders ?st ! 1 = example_frame 5 False # []" by (simp add: initial_state_def)
  have n: "\<not> hasIntrinsics (example_frame 5 False)" by (simp add: example_frame_def)
  have e: "\<forall>j<1. ready (feeders ?st ! j)" by (simp add: initial_state_def example_frame_def)
  have f: "localizeRigCalls ?st = []" by (simp add: initial_state_def)
  have g: "currentImgName (example_frame 5 False) = ''img''" by (simp add: example_frame_def)
  from missing_intrinsics_aborts [OF b c d n, of "example_world [] []" example_setup] e f g
  show ?thesis by auto
qed

section \<open>The thresholds in the parameters\<close>

text \<open>
  C9, as stated, fails: with the ACRANSAC estimator a resection threshold of -1 passes the
  check and is stored in the parameters as it is, and -1 is negative.
\<close>

theorem negative_threshold_counterexample:
  "map_option param_errorMax
     (accepted_param (example_world [] [])
        (example_options\<lparr>resectionErrorMax := Finite (- 1)\<rparr>)) = Some (Finite (- 1))
   \<and> \<not> double_le (Finite 0) (Finite (- 1))"
  by (simp add: accepted_param_def example_defs startup_def checkRobustEstimator_def
      initial_state_def)

text \<open>
  C9, amended. For every configuration that the start-up accepts, the resection threshold
  stored in the parameters is, with ACRANSAC, the given value with 0 replaced by
  +infinity (a negative value is accepted and stored as it is), and with LORANSAC the
  given value, which is above \<^verbatim>\<open>1e-6\<close> and so not negative (unless it is a NaN, which
  the comparison lets through). The same holds of the matching threshold, which is stored
  for the vocabulary-tree localizer. The parameters are built once before the loop, and
  every call of the engine, at any point of the loop, receives them as they were built.
\<close>

theorem thresholds_in_parameters:
  assumes "startup w opts = Inr (su, st0)"
    and "state_after w su n st0 = Some st \<or> (\<exists>r. main w opts = Some r \<and> final r = Some st)"
  shows "stored_threshold (resectionEstimator opts) (resectionErrorMax opts)
           (param_errorMax (param su))
     \<and> (if useVoctreeLocalizer opts
         then \<exists>m. param_matchingError (param su) = Some m
                \<and> stored_threshold (matchingEstimator opts) (matchingErrorMax opts) m
         else param_matchingError (param su) = None)
     \<and> (\<forall>c \<in> set (localizeRigCalls st). q_param (fst c) = param su)"
proof -
  note s = startup_Inr [OF assms(1)]
  have r: "stored_threshold (resectionEstimator opts) (resectionErrorMax opts)
           (param_errorMax (param su))"
    using checkRobustEstimator_accepts [OF s(2)] by (simp add: s(3))
  have m: "stored_threshold (matchingEstimator opts) (matchingErrorMax opts)
           (snd (checkRobustEstimator (matchingEstimator opts) (matchingErrorMax opts)))"
    by (rule checkRobustEstimator_accepts [OF s(1)])
  have "history_inv w su st" by (rule visited_history_inv [OF assms])
  then have "\<forall>c \<in> set (localizeRigCalls st). q_param (fst c) = param su"
    by (simp add: history_inv_def)
  with r m show ?thesis by (simp add: s(4))
qed

text \<open>
  The theorem at the example with a resection threshold of 0, which is stored as
  +infinity, after two iterations.
\<close>

theorem thresholds_in_parameters_witness:
  "\<exists>su st0 st. startup (example_world
                 [example_frame 1 True, example_frame 2 True, example_frame 3 True]
                 [example_frame 4 True, example_frame 5 True, example_frame 6 True])
               (example_options\<lparr>resectionErrorMax := Finite 0\<rparr>) = Inr (su, st0)
     \<and> state_after (example_world
                 [example_frame 1 True, example_frame 2 True, example_frame 3 True]
                 [example_frame 4 True, example_frame 5 True, example_frame 6 True])
          su (Suc (Suc 0)) st0 = Some st
     \<and> param_errorMax (param su) = PosInf
     \<and> param_matchingError (param su) = Some (Finite 4)
     \<and> length (localizeRigCalls st) = 2
     \<and> q_param (fst (localizeRigCalls st ! 0)) = param su
     \<and> q_param (fst (localizeRigCalls st ! 1)) = param su"
proof -
  let ?w = "example_world
                 [example_frame 1 True, example_frame 2 True, example_frame 3 True]
                 [example_frame 4 True, example_frame 5 True, example_frame 6 True]"
  let ?o = "example_options\<lparr>resectionErrorMax := Finite 0\<rparr>"
  have "\<exists>su st0 st. startup ?w ?o = Inr (su, st0)
          \<and> state_after ?w su (Suc (Suc 0)) st0 = Some st
          \<and> length (localizeRigCalls st) = 2
          \<and> param_matchingError (param su) = Some (Finite 4)"
    by (simp add: example_defs program_defs)
  then obtain su st0 st where s: "startup ?w ?o = Inr (su, st0)"
    and a: "state_after ?w su (Suc (Suc 0)) st0 = Some st"
    and l: "length (localizeRigCalls st) = 2"
    and pm: "param_matchingError (param su) = Some (Finite 4)"
    by blast
  from a have v: "state_after ?w su (Suc (Suc 0)) st0 = Some st
      \<or> (\<exists>r. main ?w ?o = Some r \<and> final r = Some st)"
    by blast
  have o: "resectionEstimator ?o = ROBUST_ESTIMATOR_ACRANSAC" "resectionErrorMax ?o = Finite 0"
    by (simp_all add: example_options_def)
  from thresholds_in_parameters [OF s v]
  have t: "stored_threshold (resectionEstimator ?o) (resectionErrorMax ?o)
             (param_errorMax (param su))"
    and c: "\<forall>c \<in> set (localizeRigCalls st). q_param (fst c) = param su"
    by blast+
  from t have e: "param_errorMax (param su) = PosInf"
    by (simp add: o stored_threshold_def)
  from l c have "q_param (fst (localizeRigCalls st ! 0)) = param su"
    and "q_param (fst (localizeRigCalls st ! 1)) = param su"
    by simp_all
  with s a e pm l show ?thesis
    by (intro exI [of _ su] exI [of _ st0] exI [of _ st]) simp
qed

section \<open>The counters\<close>

text \<open>
  C10, as stated, fails: inside the first iteration of a run whose first frame is
  localized, after the results are appended to the result log (line 500) and the counter
  of localized frames is incremented (line 504), and before the frame counter is
  incremented (line 534), the counter of localized frames is 1 and the frame counter is
  0, while the result log has one entry. So at that point the counter of localized frames
  exceeds the frame counter, and the frame counter is not the number of entries of the
  result log.
\<close>

theorem counters_inside_iteration_counterexample:
  "startup (example_world [example_frame 1 True] [example_frame 4 True]) example_options
     = Inr (example_setup,
            initial_state [[example_frame 1 True], [example_frame 4 True]] [[], []])
   \<and> map_option numLocalizedFrames
       (inside_iteration (example_world [example_frame 1 True] [example_frame 4 True])
          example_setup
          (initial_state [[example_frame 1 True], [example_frame 4 True]] [[], []])) = Some 1
   \<and> map_option frameCounter
       (inside_iteration (example_world [example_frame 1 True] [example_frame 4 True])
          example_setup
          (initial_state [[example_frame 1 True], [example_frame 4 True]] [[], []])) = Some 0
   \<and> map_option rigResultPerFrame
       (inside_iteration (example_world [example_frame 1 True] [example_frame 4 True])
          example_setup
          (initial_state [[example_frame 1 True], [example_frame 4 True]] [[], []]))
       = Some [[LocalizationResult 1, LocalizationResult 4]]"
  by (simp add: example_defs example_setup_def startup_def checkRobustEstimator_def
      inside_iteration_def initial_state_def readImage_def goToNextFrame_def
      accumulate_def acc_empty_def Let_def)

text \<open>
  C10, amended. At the head of the loop after any number of iterations, and after the
  loop (in the state the program ends with): the counter of localized frames is the
  number of recorded frames for which the call of the engine returned
  \<^verbatim>\<open>isLocalized = true\<close>; it is at most the frame counter; and the frame counter is the
  number of entries of the result log, whose entries are the results the engine returned,
  in order.
\<close>

theorem counters_agree_with_history:
  assumes "startup w opts = Inr (su, st0)"
    and "state_after w su n st0 = Some st \<or> (\<exists>r. main w opts = Some r \<and> final r = Some st)"
  shows "numLocalizedFrames st
           = length (filter (\<lambda>c. isLocalized (snd c)) (localizeRigCalls st))
     \<and> numLocalizedFrames st \<le> frameCounter st
     \<and> frameCounter st = length (rigResultPerFrame st)
     \<and> rigResultPerFrame st = map (\<lambda>c. localizationResults (snd c)) (localizeRigCalls st)
     \<and> (\<forall>i < length (localizeRigCalls st).
           snd (localizeRigCalls st ! i) = localizeRig w i (fst (localizeRigCalls st ! i)))"
proof -
  have "history_inv w su st" by (rule visited_history_inv [OF assms])
  then have inv: "frameCounter st = length (localizeRigCalls st)"
    "rigResultPerFrame st = map (\<lambda>c. localizationResults (snd c)) (localizeRigCalls st)"
    "numLocalizedFrames st = length (filter (\<lambda>c. isLocalized (snd c)) (localizeRigCalls st))"
    "\<forall>i < length (localizeRigCalls st).
        snd (localizeRigCalls st ! i) = localizeRig w i (fst (localizeRigCalls st ! i))"
    by (simp_all add: history_inv_def)
  have "numLocalizedFrames st \<le> frameCounter st"
    by (simp add: inv(1,3))
  moreover have "frameCounter st = length (rigResultPerFrame st)"
    by (simp add: inv(1,2))
  ultimately show ?thesis using inv by blast
qed

text \<open>The theorem at the example, after two iterations.\<close>

theorem counters_agree_with_history_witness:
  "\<exists>su st0 st. startup (example_world
                 [example_frame 1 True, example_frame 2 True, example_frame 3 True]
                 [example_frame 4 True, example_frame 5 True, example_frame 6 True])
               example_options = Inr (su, st0)
     \<and> state_after (example_world
                 [example_frame 1 True, example_frame 2 True, example_frame 3 True]
                 [example_frame 4 True, example_frame 5 True, example_frame 6 True])
          su (Suc (Suc 0)) st0 = Some st
     \<and> frameCounter st = 2 \<and> numLocalizedFrames st = 1
     \<and> numLocalizedFrames st \<le> frameCounter st
     \<and> frameCounter st = length (rigResultPerFrame st)"
proof -
  let ?w = "example_world
                 [example_frame 1 True, example_frame 2 True, example_frame 3 True]
                 [example_frame 4 True, example_frame 5 True, example_frame 6 True]"
  have "\<exists>su st0 st. startup ?w example_options = Inr (su, st0)
          \<and> state_after ?w su (Suc (Suc 0)) st0 = Some st \<and> frameCounter st = 2 \<and> numLocalizedFrames st = 1"
    by (simp add: example_defs program_defs)
  then obtain su st0 st where s: "startup ?w example_options = Inr (su, st0)"
    and a: "state_after ?w su (Suc (Suc 0)) st0 = Some st"
    and c: "frameCounter st = 2" "numLocalizedFrames st = 1"
    by blast
  from a have v: "state_after ?w su (Suc (Suc 0)) st0 = Some st
      \<or> (\<exists>r. main ?w example_options = Some r \<and> final r = Some st)"
    by blast
  from counters_agree_with_history [OF s v] s a c show ?thesis
    by blast
qed

end
